theory Spec2Isabelle
  imports Complex_Main "HOL-Library.Log_Nat" "HOL-Library.Word"
begin

section \<open>Python values and exceptions used by \<open>print_sys_info.py\<close>\<close>

text \<open>
  The exception classes that can reach one of the script's \<open>except\<close> clauses, or pass
  it. \<open>FileNotFoundError\<close> and \<open>socket.gaierror\<close> are subclasses of \<open>OSError\<close>;
  \<open>socket.error\<close> is an alias of \<open>OSError\<close>. The others are unrelated classes.
\<close>

datatype pyerror =
    OverflowError
  | OSError
  | FileNotFoundError
  | SocketGaiError
  | AttributeError
  | NameError
  | UnicodeError

definition is_OSError :: "pyerror \<Rightarrow> bool" where
  "is_OSError e = (e = OSError \<or> e = FileNotFoundError \<or> e = SocketGaiError)"

definition bind_err :: "pyerror + 'a \<Rightarrow> ('a \<Rightarrow> pyerror + 'b) \<Rightarrow> pyerror + 'b" where
  "bind_err m f = (case m of Inl e \<Rightarrow> Inl e | Inr v \<Rightarrow> f v)"

text \<open>
  \<open>try: body except (classes): return handler\<close>: an exception of a listed class gives
  the handler's value, any other exception propagates.
\<close>

definition try_except :: "(pyerror \<Rightarrow> bool) \<Rightarrow> pyerror + 'a \<Rightarrow> 'a \<Rightarrow> pyerror + 'a" where
  "try_except caught body handler =
     (case body of
        Inl e \<Rightarrow> if caught e then Inr handler else Inl e
      | Inr v \<Rightarrow> Inr v)"

text \<open>
  A Python number is an unbounded \<open>int\<close> or a \<open>float\<close>. A finite IEEE-754 double is
  represented by the rational it denotes; infinities, NaN and the sign of zero are not
  represented (the script never produces them from an integer byte count).
\<close>

datatype pynum = PyInt int | PyFloat rat

subsection \<open>Rounding to a double\<close>

definition round_half_even :: "rat \<Rightarrow> int" where
  "round_half_even x =
     (let f = \<lfloor>x\<rfloor>; d = x - of_int f
      in if d < 1 / 2 then f else if 1 / 2 < d then f + 1 else if even f then f else f + 1)"

definition pow2 :: "int \<Rightarrow> rat" where
  "pow2 k = (if 0 \<le> k then 2 ^ nat k else 1 / 2 ^ nat (- k))"

text \<open>\<open>ilog2 x\<close> is the binary exponent \<open>e\<close> of a positive \<open>x\<close>: \<open>2^e \<le> x < 2^(e+1)\<close>.\<close>

definition ilog2 :: "rat \<Rightarrow> int" where
  "ilog2 x = (if 1 \<le> x then bitlen \<lfloor>x\<rfloor> - 1 else - bitlen (\<lceil>1 / x\<rceil> - 1))"

text \<open>
  The exponent of the unit in the last place of the double nearest to \<open>x\<close>: 53 significant
  bits, with gradual underflow below \<open>2^-1022\<close>.
\<close>

definition double_ulp_exp :: "rat \<Rightarrow> int" where
  "double_ulp_exp x = max (ilog2 \<bar>x\<bar>) (- 1022) - 52"

text \<open>Round to nearest, ties to even, before the overflow check.\<close>

definition round_double :: "rat \<Rightarrow> rat" where
  "round_double x =
     (if x = 0 then 0
      else of_int (round_half_even (x / pow2 (double_ulp_exp x))) * pow2 (double_ulp_exp x))"

text \<open>
  \<open>float(i)\<close> and \<open>a / b\<close> on Python ints are correctly rounded and raise
  \<open>OverflowError\<close> when the rounded result does not fit a double.
\<close>

definition checked_double :: "rat \<Rightarrow> pyerror + rat" where
  "checked_double x =
     (let r = round_double x in if 2 ^ 1024 \<le> \<bar>r\<bar> then Inl OverflowError else Inr r)"

definition int_to_float :: "int \<Rightarrow> pyerror + rat" where
  "int_to_float i = checked_double (of_int i)"

text \<open>\<open>bytes_value < 1024\<close>: Python compares an int or a float with an int exactly.\<close>

fun lt_1024 :: "pynum \<Rightarrow> bool" where
  "lt_1024 (PyInt i) = (i < 1024)"
| "lt_1024 (PyFloat x) = (x < 1024)"

text \<open>
  \<open>bytes_value /= 1024\<close>: true division. On an int it is the correctly rounded quotient;
  on a float the int \<open>1024\<close> is converted exactly and the quotient is rounded (its
  magnitude is below the dividend's, so it cannot overflow).
\<close>

fun div_1024 :: "pynum \<Rightarrow> pyerror + pynum" where
  "div_1024 (PyInt i) = bind_err (checked_double (of_int i / 1024)) (\<lambda>r. Inr (PyFloat r))"
| "div_1024 (PyFloat x) = Inr (PyFloat (round_double (x / 1024)))"

subsection \<open>The format specification \<open>.2f\<close>\<close>

fun dec_nat :: "nat \<Rightarrow> string" where
  "dec_nat n =
     (if n < 10 then [''0123456789'' ! n]
      else dec_nat (n div 10) @ [''0123456789'' ! (n mod 10)])"

declare dec_nat.simps [simp del]

text \<open>\<open>str(i)\<close> of a Python int.\<close>

definition str_int :: "int \<Rightarrow> string" where
  "str_int i = (if i < 0 then ''-'' else []) @ dec_nat (nat \<bar>i\<bar>)"

text \<open>
  The number of hundredths shown by \<open>.2f\<close> for a double of value \<open>x\<close>: the exact value
  is rounded to two decimals, ties to even.
\<close>

definition hundredths :: "rat \<Rightarrow> nat" where
  "hundredths x = nat (round_half_even (\<bar>x\<bar> * 100))"

definition fixed2 :: "nat \<Rightarrow> string" where
  "fixed2 n = dec_nat (n div 100) @ ''.'' @ [''0123456789'' ! (n div 10 mod 10), ''0123456789'' ! (n mod 10)]"

definition float_2f :: "rat \<Rightarrow> string" where
  "float_2f x = (if x < 0 then ''-'' else []) @ fixed2 (hundredths x)"

text \<open>\<open>f"{v:.2f}"\<close>: an int is converted to a float first.\<close>

fun format_2f :: "pynum \<Rightarrow> pyerror + string" where
  "format_2f (PyInt i) = bind_err (int_to_float i) (\<lambda>x. Inr (float_2f x))"
| "format_2f (PyFloat x) = Inr (float_2f x)"

section \<open>\<open>format_bytes\<close>\<close>

text \<open>
  The \<open>for unit in [...]\<close> loop, with \<open>bytes_value\<close> as the second argument; the empty
  list is the statement after the loop.
\<close>

fun format_bytes_loop :: "string list \<Rightarrow> pynum \<Rightarrow> pyerror + string" where
  "format_bytes_loop [] v = bind_err (format_2f v) (\<lambda>s. Inr (s @ '' PB''))"
| "format_bytes_loop (unit # units) v =
     (if lt_1024 v then bind_err (format_2f v) (\<lambda>s. Inr (s @ '' '' @ unit))
      else bind_err (div_1024 v) (format_bytes_loop units))"

definition format_bytes :: "pynum \<Rightarrow> pyerror + string" where
  "format_bytes bytes_value = format_bytes_loop [''B'', ''KB'', ''MB'', ''GB'', ''TB''] bytes_value"

section \<open>The host the script runs on\<close>

text \<open>
  The fields of \<open>os.statvfs_result\<close> the script reads. They come from the unsigned
  64-bit fields of the C \<open>struct statvfs\<close>; Python sees them as ints (\<open>uint\<close>).
\<close>

record statvfs_result =
  f_frsize :: "64 word"
  f_blocks :: "64 word"
  f_bavail :: "64 word"
  f_flag :: "64 word"

text \<open>
  Everything the script reads from its platform. A call that can raise returns
  \<open>pyerror + _\<close>. The \<open>platform\<close>, \<open>sys\<close> and \<open>time\<close> reads are the text the
  f-strings show (\<open>platform_architecture_str\<close> and \<open>time_tzname_str\<close> are the \<open>str\<close> of
  the tuples). \<open>GetDiskFreeSpaceExW\<close> is the attribute lookup
  \<open>ctypes.windll.kernel32.GetDiskFreeSpaceExW\<close> (which can raise) and the foreign function
  it gives: from the directory and the three \<open>c_ulonglong\<close> cells passed by reference to
  the returned \<open>BOOL\<close> and the cells afterwards.
\<close>

record host =
  os_name :: string
  platform_system :: string
  platform_release :: string
  platform_version :: string
  platform_platform :: string
  platform_architecture_str :: string
  platform_machine :: string
  platform_processor :: string
  platform_win32_edition :: string
  platform_python_version :: string
  platform_python_compiler :: string
  platform_python_implementation :: string
  sys_executable :: string
  sys_api_version :: int
  socket_gethostname :: "pyerror + string"
  socket_gethostbyname :: "string \<Rightarrow> pyerror + string"
  socket_getfqdn :: "pyerror + string"
  os_statvfs :: "string \<Rightarrow> pyerror + statvfs_result"
  os_getcwd :: "pyerror + string"
  GetDiskFreeSpaceExW ::
    "pyerror + (string \<Rightarrow> 64 word \<times> 64 word \<times> 64 word
       \<Rightarrow> pyerror + (int \<times> 64 word \<times> 64 word \<times> 64 word))"
  time_asctime_gmtime :: string
  time_asctime_localtime :: string
  time_tzname_str :: string

section \<open>\<open>get_network_info\<close>\<close>

record netinfo =
  hostname :: "string option"
  ip_address :: "string option"
  fqdn :: "string option"

text \<open>The function body, under \<open>try ... except socket.error\<close>.\<close>

definition get_network_info_body :: "host \<Rightarrow> pyerror + netinfo" where
  "get_network_info_body h =
     try_except is_OSError
       (bind_err (socket_gethostname h) (\<lambda>name.
        bind_err (socket_gethostbyname h name) (\<lambda>ip.
        bind_err (socket_getfqdn h) (\<lambda>fq.
        Inr \<lparr>hostname = Some name, ip_address = Some ip,
             fqdn = (if fq \<noteq> name then Some fq else None)\<rparr>))))
       \<lparr>hostname = None, ip_address = None, fqdn = None\<rparr>"

text \<open>
  \<open>@lru_cache(maxsize=1)\<close> on a function of no arguments: one slot, filled by the first
  call that returns; a call that raises stores nothing.
\<close>

definition get_network_info :: "host \<Rightarrow> netinfo option \<Rightarrow> (pyerror + netinfo) \<times> netinfo option" where
  "get_network_info h cache =
     (case cache of
        Some r \<Rightarrow> (Inr r, cache)
      | None \<Rightarrow>
          (case get_network_info_body h of
             Inl e \<Rightarrow> (Inl e, None)
           | Inr r \<Rightarrow> (Inr r, Some r)))"

section \<open>\<open>get_filesystem_info\<close>\<close>

text \<open>The returned dict; the key \<open>'type'\<close> is present on the POSIX path only.\<close>

record fsinfo =
  fs_total :: string
  fs_available :: string
  fs_used :: string
  fs_type :: "int option"

text \<open>
  \<open>ctypes_bound\<close> says whether the global name \<open>ctypes\<close> is bound: the module imports it
  only under \<open>if __name__ == "__main__": if os.name == "nt":\<close>.
\<close>

definition get_filesystem_info :: "host \<Rightarrow> bool \<Rightarrow> pyerror + fsinfo option" where
  "get_filesystem_info h ctypes_bound =
     (if os_name h = ''posix'' then
        try_except (\<lambda>e. e = FileNotFoundError \<or> is_OSError e)
          (bind_err (os_statvfs h ''.'') (\<lambda>statvfs.
           let total = uint (f_frsize statvfs) * uint (f_blocks statvfs);
               available = uint (f_frsize statvfs) * uint (f_bavail statvfs);
               used = total - available
           in bind_err (format_bytes (PyInt total)) (\<lambda>t.
              bind_err (format_bytes (PyInt available)) (\<lambda>a.
              bind_err (format_bytes (PyInt used)) (\<lambda>u.
              Inr (Some \<lparr>fs_total = t, fs_available = a, fs_used = u,
                         fs_type = Some (uint (f_flag statvfs))\<rparr>))))))
          None
      else if os_name h = ''nt'' then
        try_except (\<lambda>e. e = AttributeError \<or> is_OSError e)
          (if \<not> ctypes_bound then Inl NameError
           else
             bind_err (GetDiskFreeSpaceExW h) (\<lambda>api.
             bind_err (os_getcwd h) (\<lambda>cwd.
             bind_err (api cwd (0, 0, 0)) (\<lambda>(ret, free_bytes, total_bytes, total_free_bytes).
             bind_err (format_bytes (PyInt (uint total_bytes))) (\<lambda>t.
             bind_err (format_bytes (PyInt (uint free_bytes))) (\<lambda>a.
             bind_err (format_bytes (PyInt (uint total_bytes - uint free_bytes))) (\<lambda>u.
             Inr (Some \<lparr>fs_total = t, fs_available = a, fs_used = u, fs_type = None\<rparr>))))))))
          None
      else Inr None)"

section \<open>\<open>main\<close>\<close>

text \<open>What \<open>console.print\<close> is given: the renderable with its text, title and style.\<close>

datatype renderable =
    PanelFit string string
  | Tree string "string list"
  | Table string "(string \<times> string) list" "(string \<times> string) list"
  | Panel string string string
  | Markup string

text \<open>The process state: what was printed so far, and the slot of \<open>lru_cache\<close>.\<close>

record process =
  console :: "renderable list"
  net_cache :: "netinfo option"

definition console_print :: "renderable \<Rightarrow> process \<Rightarrow> process" where
  "console_print r p = p\<lparr>console := console p @ [r]\<rparr>"

text \<open>The titles start with an emoji, written here as its UTF-8 bytes.\<close>

definition emoji_desktop :: string where
  "emoji_desktop = [CHR 0xF0, CHR 0x9F, CHR 0x96, CHR 0xA5, CHR 0xEF, CHR 0xB8, CHR 0x8F]"

definition emoji_snake :: string where
  "emoji_snake = [CHR 0xF0, CHR 0x9F, CHR 0x90, CHR 0x8D]"

definition emoji_globe :: string where
  "emoji_globe = [CHR 0xF0, CHR 0x9F, CHR 0x8C, CHR 0x90]"

definition emoji_disk :: string where
  "emoji_disk = [CHR 0xF0, CHR 0x9F, CHR 0x92, CHR 0xBE]"

definition emoji_clock :: string where
  "emoji_clock = [CHR 0xE2, CHR 0x8F, CHR 0xB0]"

definition title_banner :: renderable where
  "title_banner = PanelFit ''System Information'' ''bold blue''"

definition os_tree :: "host \<Rightarrow> renderable" where
  "os_tree h =
     Tree (emoji_desktop @ '' Operating System'')
       ([''Name: '' @ platform_system h,
         ''Release: '' @ platform_release h,
         ''Version: '' @ platform_version h,
         ''Platform: '' @ platform_platform h,
         ''Architecture: '' @ platform_architecture_str h,
         ''Machine: '' @ platform_machine h,
         ''Processor: '' @ platform_processor h]
        @ (if os_name h = ''nt'' then [''Windows Edition: '' @ platform_win32_edition h] else []))"

definition python_table :: "host \<Rightarrow> renderable" where
  "python_table h =
     Table (emoji_snake @ '' Python Environment'')
       [(''Property'', ''cyan''), (''Value'', ''green'')]
       [(''Version'', platform_python_version h),
        (''Compiler'', platform_python_compiler h),
        (''Implementation'', platform_python_implementation h),
        (''Executable'', sys_executable h),
        (''API Version'', str_int (sys_api_version h))]"

text \<open>\<open>value or default\<close> on an optional string: \<open>None\<close> and the empty string are falsy.\<close>

definition or_default :: "string option \<Rightarrow> string \<Rightarrow> string" where
  "or_default v d = (case v of None \<Rightarrow> d | Some s \<Rightarrow> if s = [] then d else s)"

definition could_not_be_determined :: string where
  "could_not_be_determined = ''[red]Could not be determined[/red]''"

definition network_panel :: "netinfo \<Rightarrow> renderable" where
  "network_panel net_info =
     Panel (''[cyan]Hostname:[/cyan] '' @ or_default (hostname net_info) could_not_be_determined
            @ [CHR 0x0A] @ ''[cyan]IP Address:[/cyan] ''
            @ or_default (ip_address net_info) could_not_be_determined
            @ [CHR 0x0A] @ ''[cyan]FQDN:[/cyan] ''
            @ or_default (fqdn net_info) could_not_be_determined)
       (emoji_globe @ '' Network Information'') ''blue''"

definition fs_table :: "fsinfo \<Rightarrow> renderable" where
  "fs_table fs_info =
     Table (emoji_disk @ '' Filesystem Information'')
       [(''Metric'', ''cyan''), (''Value'', ''green'')]
       ([(''Total Size'', fs_total fs_info),
         (''Available Space'', fs_available fs_info),
         (''Used Space'', fs_used fs_info)]
        @ (case fs_type fs_info of
             Some ty \<Rightarrow> [(''Filesystem Type'', str_int ty)]
           | None \<Rightarrow> []))"

definition fs_failure :: renderable where
  "fs_failure = Markup ''[red]Could not get filesystem information[/red]''"

definition time_panel :: "host \<Rightarrow> renderable" where
  "time_panel h =
     Panel (''[cyan]Current Time (UTC):[/cyan] '' @ time_asctime_gmtime h
            @ [CHR 0x0A] @ ''[cyan]Current Time (Local):[/cyan] '' @ time_asctime_localtime h
            @ [CHR 0x0A] @ ''[cyan]Current Timezone:[/cyan] '' @ time_tzname_str h)
       (emoji_clock @ '' Time Information'') ''blue''"

text \<open>
  \<open>main\<close> returns the exception that ended it, if any, and the process state; what was
  printed before an exception stays printed.
\<close>

definition main :: "host \<Rightarrow> bool \<Rightarrow> process \<Rightarrow> (pyerror + unit) \<times> process" where
  "main h ctypes_bound p0 =
     (let p1 = console_print title_banner p0;
          p2 = console_print (os_tree h) p1;
          p3 = console_print (python_table h) p2
      in case get_network_info h (net_cache p3) of
           (Inl e, c) \<Rightarrow> (Inl e, p3\<lparr>net_cache := c\<rparr>)
         | (Inr net_info, c) \<Rightarrow>
             (let p4 = console_print (network_panel net_info) (p3\<lparr>net_cache := c\<rparr>)
              in case get_filesystem_info h ctypes_bound of
                   Inl e \<Rightarrow> (Inl e, p4)
                 | Inr fs_info \<Rightarrow>
                     (let p5 = console_print
                                 (case fs_info of Some fs \<Rightarrow> fs_table fs | None \<Rightarrow> fs_failure) p4;
                          p6 = console_print (time_panel h) p5
                      in (Inr (), p6))))"

text \<open>
  Running the file as a script: \<open>ctypes\<close> is imported exactly on \<open>nt\<close>, then \<open>main()\<close>
  runs in a fresh process.
\<close>

definition fresh_process :: process where
  "fresh_process = \<lparr>console = [], net_cache = None\<rparr>"

definition run_script :: "host \<Rightarrow> (pyerror + unit) \<times> process" where
  "run_script h = main h (os_name h = ''nt'') fresh_process"


section \<open>Example hosts\<close>

text \<open>
  A Linux host whose name service answers and whose current directory is on a volume of
  \<open>2^20\<close> fragments of 4096 bytes, a quarter of them available.
\<close>

definition example_posix_host :: host where
  "example_posix_host =
     \<lparr>os_name = ''posix'',
      platform_system = ''Linux'',
      platform_release = ''6.1.0'',
      platform_version = ''#1 SMP'',
      platform_platform = ''Linux-6.1.0-x86_64-with-glibc2.36'',
      platform_architecture_str = [CHR 0x28, CHR 0x27] @ ''64bit'' @ [CHR 0x27] @ '', ''
        @ [CHR 0x27] @ ''ELF'' @ [CHR 0x27, CHR 0x29],
      platform_machine = ''x86_64'',
      platform_processor = [],
      platform_win32_edition = ''None'',
      platform_python_version = ''3.13.0'',
      platform_python_compiler = ''GCC 12.2.0'',
      platform_python_implementation = ''CPython'',
      sys_executable = ''/usr/bin/python3'',
      sys_api_version = 1013,
      socket_gethostname = Inr ''box'',
      socket_gethostbyname = (\<lambda>name. if name = ''box'' then Inr ''127.0.1.1'' else Inl SocketGaiError),
      socket_getfqdn = Inr ''box.example.org'',
      os_statvfs = (\<lambda>path. Inr \<lparr>f_frsize = 4096, f_blocks = 1048576, f_bavail = 262144, f_flag = 4096\<rparr>),
      os_getcwd = Inr ''/home/user'',
      GetDiskFreeSpaceExW = Inl AttributeError,
      time_asctime_gmtime = ''Fri Nov  6 12:00:00 2026'',
      time_asctime_localtime = ''Fri Nov  6 13:00:00 2026'',
      time_tzname_str = [CHR 0x28, CHR 0x27] @ ''CET'' @ [CHR 0x27] @ '', ''
        @ [CHR 0x27] @ ''CEST'' @ [CHR 0x27, CHR 0x29]\<rparr>"

text \<open>
  A Windows host: the disk-free-space call succeeds and writes 3 GiB free for the caller,
  4 GiB in total and 3 GiB free in total.
\<close>

definition example_nt_host :: host where
  "example_nt_host =
     example_posix_host
       \<lparr>os_name := ''nt'',
        platform_system := ''Windows'',
        platform_win32_edition := ''Professional'',
        os_statvfs := (\<lambda>path. Inl OSError),
        os_getcwd := Inr ''C:/Users/user'',
        GetDiskFreeSpaceExW :=
          Inr (\<lambda>cwd cells. Inr (1, 3221225472, 4294967296, 3221225472))\<rparr>"

text \<open>
  The same Windows host when the disk-free-space call fails: as the Win32 function does,
  it returns 0 (\<open>FALSE\<close>), raises nothing and leaves the three cells as they were.
\<close>

definition example_nt_host_call_fails :: host where
  "example_nt_host_call_fails =
     example_nt_host\<lparr>GetDiskFreeSpaceExW := Inr (\<lambda>cwd cells. Inr (0, cells))\<rparr>"

text \<open>A host whose name service is down: the address lookup raises \<open>socket.gaierror\<close>.\<close>

definition example_host_no_dns :: host where
  "example_host_no_dns =
     example_posix_host\<lparr>socket_gethostbyname := (\<lambda>name. Inl SocketGaiError)\<rparr>"

text \<open>A host whose fully-qualified name is its bare hostname.\<close>

definition example_host_short_fqdn :: host where
  "example_host_short_fqdn = example_posix_host\<lparr>socket_getfqdn := Inr ''box''\<rparr>"

section \<open>Properties of the rounding functions\<close>

lemma rhe_floor_le: "of_int (round_half_even x) \<le> x + 1 / 2"
  unfolding round_half_even_def Let_def by (auto; linarith)

lemma rhe_ge: "x - 1 / 2 \<le> of_int (round_half_even x)"
  unfolding round_half_even_def Let_def by (auto; linarith)

lemma rhe_le_int: "x \<le> of_int n \<Longrightarrow> round_half_even x \<le> n"
  using rhe_floor_le[of x] by linarith

lemma rhe_lt_half: "x < of_int n + 1 / 2 \<Longrightarrow> round_half_even x \<le> n"
  using rhe_floor_le[of x] by linarith

lemma rhe_ge_int: "of_int n \<le> x \<Longrightarrow> n \<le> round_half_even x"
  using rhe_ge[of x] by linarith

lemma rhe_of_int: "round_half_even (of_int n) = n"
  unfolding round_half_even_def Let_def by simp

lemma rhe_unique:
  assumes "of_int n - 1 / 2 < x" and "x < of_int n + 1 / 2"
  shows "round_half_even x = n"
  using assms rhe_ge[of x] rhe_floor_le[of x] by linarith

lemma rhe_tie_even: 
  assumes ev: "even n" and le: "of_int n - 1 / 2 \<le> x"
  shows "n \<le> round_half_even x"
proof (cases "of_int n - 1 / 2 = x")
  case True
  then have x: "x = of_int (n - 1) + 1 / 2" by simp
  have fl: "\<lfloor>x\<rfloor> = n - 1" unfolding x by (simp add: floor_unique)
  have od: "odd (n - 1)" using ev by simp
  show ?thesis unfolding round_half_even_def Let_def fl using od x by simp
next
  case False
  then have "of_int n - 1 / 2 < x" using le by simp
  then show ?thesis using rhe_ge[of x] by linarith
qed

lemma rhe_minus: "round_half_even (- x) = - round_half_even x"
proof (cases "x = of_int \<lfloor>x\<rfloor>")
  case True
  then obtain n where x: "x = of_int n" ..
  have "- x = of_int (- n)" using x by simp
  then show ?thesis using rhe_of_int x by metis
next
  case False
  define f where "f = \<lfloor>x\<rfloor>"
  define d where "d = x - of_int f"
  have lt: "of_int f < x" unfolding f_def using False by (metis of_int_floor_le order_less_le)
  have d0: "0 < d" unfolding d_def using lt by simp
  have d1: "d < 1" unfolding d_def f_def by linarith
  have fm: "\<lfloor>- x\<rfloor> = - f - 1"
    using False by (simp add: f_def floor_minus ceiling_altdef)
  have dm: "- x - of_int (- f - 1) = 1 - d" unfolding d_def by simp
  have l: "round_half_even x = (if d < 1 / 2 then f else if 1 / 2 < d then f + 1 else if even f then f else f + 1)"
    unfolding round_half_even_def Let_def f_def[symmetric] d_def[symmetric] ..
  have r: "round_half_even (- x) = (if 1 - d < 1 / 2 then - f - 1 else if 1 / 2 < 1 - d then - f - 1 + 1 else if even (- f - 1) then - f - 1 else - f - 1 + 1)"
    unfolding round_half_even_def Let_def fm dm ..
  consider "d < 1 / 2" | "1 / 2 < d" | "d = 1 / 2" by linarith
  then show ?thesis
  proof cases
    case 1
    then show ?thesis unfolding l r by simp
  next
    case 2
    then show ?thesis unfolding l r by simp
  next
    case 3
    then show ?thesis unfolding l r by simp
  qed
qed

lemma pow2_powi: "pow2 k = 2 powi k"
  by (simp add: pow2_def power_int_def inverse_eq_divide power_one_over)

lemma pow2_pos: "0 < pow2 k"
  by (simp add: pow2_powi)

lemma ilog2_bounds:
  assumes "1 \<le> x"
  shows "0 \<le> ilog2 x" and "2 ^ nat (ilog2 x) \<le> x" and "x < 2 * 2 ^ nat (ilog2 x)"
proof -
  have pos: "0 < \<lfloor>x\<rfloor>" using assms by linarith
  have e: "ilog2 x = bitlen \<lfloor>x\<rfloor> - 1" using assms by (simp add: ilog2_def)
  have b1: "1 \<le> bitlen \<lfloor>x\<rfloor>" using pos bitlen_eq_zero_iff[of "\<lfloor>x\<rfloor>"] bitlen_nonneg[of "\<lfloor>x\<rfloor>"] by linarith
  show "0 \<le> ilog2 x" using b1 e by simp
  from bitlen_bounds[OF pos]
  have lo: "2 ^ nat (ilog2 x) \<le> \<lfloor>x\<rfloor>" and hi: "\<lfloor>x\<rfloor> < 2 ^ nat (bitlen \<lfloor>x\<rfloor>)"
    unfolding e by auto
  have "(of_int (2 ^ nat (ilog2 x)) :: rat) \<le> of_int \<lfloor>x\<rfloor>" using lo by (simp only: of_int_le_iff)
  then show "2 ^ nat (ilog2 x) \<le> x" by (simp add: le_floor_iff)
  have n: "nat (bitlen \<lfloor>x\<rfloor>) = Suc (nat (ilog2 x))" using b1 e by simp
  have "\<lfloor>x\<rfloor> + 1 \<le> 2 * 2 ^ nat (ilog2 x)" using hi unfolding n by simp
  then have "(of_int (\<lfloor>x\<rfloor> + 1) :: rat) \<le> of_int (2 * 2 ^ nat (ilog2 x))" by (simp only: of_int_le_iff)
  then show "x < 2 * 2 ^ nat (ilog2 x)" by (simp; linarith)
qed

lemma round_double_nonneg: "0 \<le> x \<Longrightarrow> 0 \<le> round_double x"
proof -
  assume x: "0 \<le> x"
  have "0 \<le> x / pow2 (double_ulp_exp x)" using x pow2_pos[of "double_ulp_exp x"] by simp
  then have "0 \<le> round_half_even (x / pow2 (double_ulp_exp x))"
    using rhe_ge_int[of 0] by simp
  then show ?thesis
    unfolding round_double_def using pow2_pos[of "double_ulp_exp x"] by simp
qed

lemma round_double_minus: "round_double (- x) = - round_double x"
  unfolding round_double_def double_ulp_exp_def by (simp add: rhe_minus)

lemma round_double_abs: "\<bar>round_double x\<bar> = round_double \<bar>x\<bar>"
proof (cases "0 \<le> x")
  case True
  then show ?thesis using round_double_nonneg[of x] by simp
next
  case False
  then have "0 \<le> - x" by simp
  from round_double_nonneg[OF this] show ?thesis
    using False by (simp add: round_double_minus)
qed

text \<open>For \<open>x \<ge> 1\<close> with binary exponent \<open>e\<close>: the scaled significand and the result.\<close>

lemma round_double_ge1:
  assumes x: "1 \<le> x" and e: "ilog2 x = int e"
  shows "round_double x * 2 ^ 52 = of_int (round_half_even (x * 2 ^ 52 / 2 ^ e)) * 2 ^ e"
proof -
  define c where "c = (2::rat) ^ 52"
  define u where "u = pow2 (int e - 52)"
  have ue: "double_ulp_exp x = int e - 52"
    using x e by (simp add: double_ulp_exp_def)
  have "(2::rat) powi (int e - 52 + 52) = 2 powi (int e - 52) * 2 powi 52"
    by (rule power_int_add) simp
  then have uc: "u * c = 2 ^ e"
    by (simp add: pow2_powi u_def c_def)
  have up: "0 < u" unfolding u_def by (rule pow2_pos)
  have cp: "0 < c" unfolding c_def by simp
  have "x / u = x * c / (u * c)" using up cp by simp
  then have q: "x / u = x * c / 2 ^ e" unfolding uc .
  have "round_double x = of_int (round_half_even (x / u)) * u"
    using x unfolding round_double_def ue u_def by simp
  then have "round_double x * c = of_int (round_half_even (x / u)) * (u * c)"
    by simp
  then have "round_double x * c = of_int (round_half_even (x * c / 2 ^ e)) * 2 ^ e"
    unfolding uc q .
  then show ?thesis unfolding c_def .
qed

lemma round_double_bounds:
  assumes x: "1 \<le> x" and e: "ilog2 x = int e"
  shows "2 ^ e \<le> round_double x" and "round_double x \<le> 2 * 2 ^ e"
proof -
  from ilog2_bounds[OF x] have lo: "2 ^ e \<le> x" and hi: "x < 2 * 2 ^ e" unfolding e by simp_all
  define m where "m = round_half_even (x * 2 ^ 52 / 2 ^ e)"
  have eq: "round_double x * 2 ^ 52 = of_int m * 2 ^ e"
    unfolding m_def by (rule round_double_ge1[OF x e])
  have "of_int (2 ^ 52) \<le> x * 2 ^ 52 / 2 ^ e" using lo by (simp add: field_simps)
  then have m_lo: "2 ^ 52 \<le> m" unfolding m_def by (rule rhe_ge_int)
  have "x * 2 ^ 52 / 2 ^ e \<le> of_int (2 ^ 53)" using hi by (simp add: field_simps)
  then have m_hi: "m \<le> 2 ^ 53" unfolding m_def by (rule rhe_le_int)
  have "(of_int (2 ^ 52) :: rat) \<le> of_int m" using m_lo by (simp only: of_int_le_iff)
  then have "(2 ^ 52 :: rat) * 2 ^ e \<le> of_int m * 2 ^ e" by (simp add: mult_right_mono)
  then have "2 ^ e * (2 ^ 52 :: rat) \<le> round_double x * 2 ^ 52" unfolding eq by (simp add: mult.commute)
  then show "2 ^ e \<le> round_double x" by simp
  have "(of_int m :: rat) \<le> of_int (2 ^ 53)" using m_hi by (simp only: of_int_le_iff)
  then have "of_int m * 2 ^ e \<le> (2 ^ 53 :: rat) * 2 ^ e" by (simp add: mult_right_mono)
  then have "round_double x * 2 ^ 52 \<le> (2 * 2 ^ e) * (2 ^ 52 :: rat)" unfolding eq by simp
  then show "round_double x \<le> 2 * 2 ^ e" by simp
qed

lemma ilog2_nat:
  assumes "1 \<le> x"
  obtains e where "ilog2 x = int e" and "2 ^ e \<le> x" and "x < 2 * 2 ^ e"
proof -
  from ilog2_bounds[OF assms] have "ilog2 x = int (nat (ilog2 x))"
    and "2 ^ nat (ilog2 x) \<le> x" and "x < 2 * 2 ^ nat (ilog2 x)" by simp_all
  then show ?thesis using that by blast
qed

lemma round_double_below_top:
  assumes x: "1 \<le> x" and e: "ilog2 x = int e" and lt: "x < 2 * 2 ^ e - 2 ^ e / 2 ^ 53"
  shows "round_double x < 2 * 2 ^ e"
proof -
  define c where "c = (2::rat) ^ 52"
  define p where "p = (2::rat) ^ e"
  define m where "m = round_half_even (x * c / p)"
  have cp: "0 < c" and pp: "0 < p" unfolding c_def p_def by simp_all
  have c2: "(2::rat) ^ 53 = 2 * c" unfolding c_def by simp
  have eq: "round_double x * c = of_int m * p"
    unfolding m_def c_def p_def by (rule round_double_ge1[OF x e])
  have lt': "x < 2 * p - p / (2 * c)" using lt unfolding p_def c2 .
  have "x * c / p < (2 * p - p / (2 * c)) * c / p"
    using lt' cp pp by (simp add: divide_strict_right_mono)
  also have "(2 * p - p / (2 * c)) * c / p = 2 * c - 1 / 2"
    using cp pp by (simp add: field_simps)
  finally have "x * c / p < of_int (2 ^ 53 - 1) + 1 / 2" unfolding c_def by simp
  then have "m \<le> 2 ^ 53 - 1" unfolding m_def by (rule rhe_lt_half)
  then have "(of_int m :: rat) \<le> of_int (2 ^ 53 - 1)" by (simp only: of_int_le_iff)
  then have "(of_int m :: rat) \<le> 2 * c - 1" unfolding c_def by simp
  then have "of_int m * p \<le> (2 * c - 1) * p" using pp by (simp add: mult_right_mono)
  also have "\<dots> < (2 * p) * c" using pp by (simp add: algebra_simps)
  finally have "round_double x * c < (2 * p) * c" unfolding eq .
  then show ?thesis using cp unfolding p_def by simp
qed

lemma round_double_at_top:
  assumes x: "1 \<le> x" and e: "ilog2 x = int e" and ge: "2 * 2 ^ e - 2 ^ e / 2 ^ 53 \<le> x"
  shows "2 * 2 ^ e \<le> round_double x"
proof -
  define c where "c = (2::rat) ^ 52"
  define p where "p = (2::rat) ^ e"
  define m where "m = round_half_even (x * c / p)"
  have cp: "0 < c" and pp: "0 < p" unfolding c_def p_def by simp_all
  have c2: "(2::rat) ^ 53 = 2 * c" unfolding c_def by simp
  have eq: "round_double x * c = of_int m * p"
    unfolding m_def c_def p_def by (rule round_double_ge1[OF x e])
  have ge': "2 * p - p / (2 * c) \<le> x" using ge unfolding p_def c2 .
  have "(2 * p - p / (2 * c)) * c / p = 2 * c - 1 / 2"
    using cp pp by (simp add: field_simps)
  moreover have "(2 * p - p / (2 * c)) * c / p \<le> x * c / p"
    using ge' cp pp by (simp add: divide_right_mono)
  ultimately have "of_int (2 ^ 53) - 1 / 2 \<le> x * c / p" unfolding c_def by simp
  moreover have "even ((2::int) ^ 53)" by simp
  ultimately have "2 ^ 53 \<le> m" unfolding m_def by (rule rhe_tie_even[rotated])
  then have "(of_int (2 ^ 53) :: rat) \<le> of_int m" by (simp only: of_int_le_iff)
  then have "2 * c \<le> (of_int m :: rat)" unfolding c_def by simp
  then have "(2 * c) * p \<le> of_int m * p" using pp by (simp add: mult_right_mono)
  then have "(2 * p) * c \<le> round_double x * c" unfolding eq by (simp add: mult.commute mult.left_commute)
  then show ?thesis using cp unfolding p_def by simp
qed

lemma round_double_fits:
  assumes x: "1 \<le> x" and lt: "x < 2 ^ 1024 - 2 ^ 970"
  shows "round_double x < 2 ^ 1024"
proof -
  from x obtain e where e: "ilog2 x = int e" and lo: "2 ^ e \<le> x" and hi: "x < 2 * 2 ^ e"
    by (rule ilog2_nat)
  have one2: "(1::rat) < 2" by simp
  have "(2::rat) ^ e < 2 ^ 1024" using lo lt by simp
  then have e_lt: "e < 1024" by (rule power_less_imp_less_exp[OF one2])
  show ?thesis
  proof (cases "e = 1023")
    case True
    have "(2::rat) * 2 ^ 1023 - 2 ^ 1023 / 2 ^ 53 = 2 ^ 1024 - 2 ^ 970" by simp
    then have "x < 2 * 2 ^ e - 2 ^ e / 2 ^ 53" using lt True by simp
    from round_double_below_top[OF x e this] show ?thesis unfolding True by simp
  next
    case False
    then have "Suc e \<le> 1023" using e_lt by simp
    then have "(2::rat) ^ Suc e \<le> 2 ^ 1023" by (rule power_increasing) simp
    moreover have "round_double x \<le> 2 ^ Suc e" using round_double_bounds(2)[OF x e] by simp
    moreover have "(2::rat) ^ 1023 < 2 ^ 1024" by simp
    ultimately show ?thesis by linarith
  qed
qed

lemma round_double_overflows:
  assumes ge: "2 ^ 1024 - 2 ^ 970 \<le> x"
  shows "2 ^ 1024 \<le> round_double x"
proof -
  have big: "(2::rat) ^ 1023 \<le> 2 ^ 1024 - 2 ^ 970" by simp
  have "(1::rat) \<le> 2 ^ 1023" by simp
  then have x: "1 \<le> x" using ge big by linarith
  from x obtain e where e: "ilog2 x = int e" and lo: "2 ^ e \<le> x" and hi: "x < 2 * 2 ^ e"
    by (rule ilog2_nat)
  have one2: "(1::rat) < 2" by simp
  have "(2::rat) ^ 1023 < 2 ^ Suc e" using hi ge big by simp
  then have "1023 < Suc e" by (rule power_less_imp_less_exp[OF one2])
  then have e_ge: "1023 \<le> e" by simp
  show ?thesis
  proof (cases "e = 1023")
    case True
    have "(2::rat) * 2 ^ 1023 - 2 ^ 1023 / 2 ^ 53 = 2 ^ 1024 - 2 ^ 970" by simp
    then have "2 * 2 ^ e - 2 ^ e / 2 ^ 53 \<le> x" using ge True by simp
    from round_double_at_top[OF x e this] show ?thesis unfolding True by simp
  next
    case False
    then have "1024 \<le> e" using e_ge by simp
    then have "(2::rat) ^ 1024 \<le> 2 ^ e" by (rule power_increasing) simp
    then show ?thesis using round_double_bounds(1)[OF x e] by linarith
  qed
qed

lemma checked_double_fits:
  assumes "x = 0 \<or> 1 \<le> \<bar>x\<bar>" and "\<bar>x\<bar> < 2 ^ 1024 - 2 ^ 970"
  shows "checked_double x = Inr (round_double x)"
proof -
  have "\<bar>round_double x\<bar> < 2 ^ 1024"
  proof (cases "x = 0")
    case True
    then show ?thesis by (simp add: round_double_def)
  next
    case False
    then have "1 \<le> \<bar>x\<bar>" using assms(1) by simp
    from round_double_fits[OF this assms(2)] show ?thesis by (simp only: round_double_abs)
  qed
  then show ?thesis unfolding checked_double_def Let_def by (simp only: not_le[symmetric] if_False)
qed

lemma checked_double_overflows:
  assumes "2 ^ 1024 - 2 ^ 970 \<le> \<bar>x\<bar>"
  shows "checked_double x = Inl OverflowError"
proof -
  have "2 ^ 1024 \<le> \<bar>round_double x\<bar>"
    using round_double_overflows[OF assms] by (simp only: round_double_abs)
  then show ?thesis unfolding checked_double_def Let_def by (simp only: if_True)
qed

lemma round_double_ge_pow2:
  assumes "2 ^ j \<le> x"
  shows "2 ^ j \<le> round_double x"
proof -
  have "(1::rat) \<le> 2 ^ j" by simp
  with assms have x: "1 \<le> x" by linarith
  from x obtain e where e: "ilog2 x = int e" and hi: "x < 2 * 2 ^ e"
    by (rule ilog2_nat)
  have one2: "(1::rat) < 2" by simp
  have "(2::rat) ^ j < 2 ^ Suc e" using assms hi by simp
  then have "j < Suc e" by (rule power_less_imp_less_exp[OF one2])
  then have "j \<le> e" by simp
  then have "(2::rat) ^ j \<le> 2 ^ e" by (rule power_increasing) simp
  with round_double_bounds(1)[OF x e] show ?thesis by linarith
qed

lemma round_double_dyadic_exact:
  assumes lo: "2 ^ k \<le> m" and hi: "m < 2 ^ 53"
  shows "round_double (of_int m / 2 ^ k) = of_int m / 2 ^ k"
proof -
  define x :: rat where "x = of_int m / 2 ^ k"
  have "(of_int (2 ^ k) :: rat) \<le> of_int m" using lo by (simp only: of_int_le_iff)
  then have x1: "1 \<le> x" unfolding x_def by simp
  from x1 obtain e where e: "ilog2 x = int e" and elo: "2 ^ e \<le> x"
    by (rule ilog2_nat)
  have one2: "(1::rat) < 2" by simp
  have mk: "of_int m = x * 2 ^ k" unfolding x_def by simp
  have "(2::rat) ^ (e + k) = 2 ^ e * 2 ^ k" by (rule power_add)
  also have "\<dots> \<le> x * 2 ^ k" using elo by (simp add: mult_right_mono)
  also have "\<dots> = of_int m" using mk by simp
  also have "\<dots> < of_int (2 ^ 53)" using hi by (simp only: of_int_less_iff)
  also have "\<dots> = (2::rat) ^ 53" by simp
  finally have "e + k < 53" by (rule power_less_imp_less_exp[OF one2])
  then obtain j where j: "52 = e + k + j" using less_Suc_eq_le[of "e + k" 52] le_Suc_ex[of "e + k" 52] by auto
  have c: "(2::rat) ^ 52 = 2 ^ e * 2 ^ k * 2 ^ j" unfolding j by (simp only: power_add)
  have "x * 2 ^ 52 / 2 ^ e = x * (2 ^ e * 2 ^ k * 2 ^ j) / 2 ^ e" by (simp only: c)
  also have "\<dots> = (x * 2 ^ k) * 2 ^ j" by simp
  also have "\<dots> = of_int (m * 2 ^ j)" unfolding mk[symmetric] by simp
  finally have "round_half_even (x * 2 ^ 52 / 2 ^ e) = m * 2 ^ j" by (simp only: rhe_of_int)
  then have "round_double x * 2 ^ 52 = of_int (m * 2 ^ j) * 2 ^ e"
    using round_double_ge1[OF x1 e] by simp
  also have "\<dots> = (x * 2 ^ k) * 2 ^ j * 2 ^ e" unfolding mk[symmetric] by simp
  also have "\<dots> = x * (2 ^ e * 2 ^ k * 2 ^ j)" by simp
  finally have "round_double x * 2 ^ 52 = x * 2 ^ 52" unfolding c .
  then have "round_double x = x" by simp
  then show ?thesis unfolding x_def .
qed

lemma checked_double_dyadic_exact:
  assumes lo: "2 ^ k \<le> m" and hi: "m < 2 ^ 53"
  shows "checked_double (of_int m / 2 ^ k) = Inr (of_int m / 2 ^ k)"
proof -
  define x :: rat where "x = of_int m / 2 ^ k"
  have rd: "round_double x = x" unfolding x_def by (rule round_double_dyadic_exact[OF lo hi])
  have "(of_int (2 ^ k) :: rat) \<le> of_int m" using lo by (simp only: of_int_le_iff)
  then have x1: "1 \<le> x" unfolding x_def by simp
  have "(1::rat) \<le> 2 ^ k" by simp
  then have "x \<le> x * 2 ^ k" using x1 by (simp add: mult_le_cancel_left1)
  also have "\<dots> = of_int m" unfolding x_def by simp
  also have "\<dots> < of_int (2 ^ 53)" using hi by (simp only: of_int_less_iff)
  also have "\<dots> = (2::rat) ^ 53" by simp
  also have "\<dots> \<le> 2 ^ 1024 - 2 ^ 970" by simp
  finally have "\<bar>x\<bar> < 2 ^ 1024 - 2 ^ 970" using x1 by simp
  moreover have "x = 0 \<or> 1 \<le> \<bar>x\<bar>" using x1 by simp
  ultimately have "checked_double x = Inr (round_double x)" by (intro checked_double_fits)
  then have "checked_double x = Inr x" unfolding rd .
  then show ?thesis unfolding x_def .
qed

lemma round_double_numeral_exact:
  assumes "numeral n < (2::int) ^ 53"
  shows "round_double (numeral n) = numeral n"
proof -
  have "2 ^ 0 \<le> (numeral n :: int)" by simp
  from round_double_dyadic_exact[OF this assms] show ?thesis by simp
qed

lemma round_double_one_exact: "round_double 1 = 1"
proof -
  have "(2::int) ^ 0 \<le> 1" and "(1::int) < 2 ^ 53" by simp_all
  from round_double_dyadic_exact[OF this] show ?thesis by simp
qed

section \<open>Properties of \<open>format_bytes\<close>\<close>

lemma hundredths_below_1024:
  assumes "0 \<le> x" and "x < 1024"
  shows "hundredths x \<le> 102400"
proof -
  have "\<bar>x\<bar> * 100 \<le> of_int 102400" using assms by simp
  then have "round_half_even (\<bar>x\<bar> * 100) \<le> 102400" by (rule rhe_le_int)
  then show ?thesis unfolding hundredths_def by simp
qed

lemma format_bytes_loop_float:
  assumes "0 \<le> x"
  shows "\<exists>y u. format_bytes_loop units (PyFloat x) = Inr (float_2f y @ '' '' @ u)
           \<and> 0 \<le> y \<and> (u \<in> set units \<and> y < 1024 \<or> u = ''PB'')"
  using assms
proof (induction units arbitrary: x)
  case Nil
  then show ?case by (auto simp: bind_err_def)
next
  case (Cons unit units)
  show ?case
  proof (cases "x < 1024")
    case True
    then have "format_bytes_loop (unit # units) (PyFloat x) = Inr (float_2f x @ '' '' @ unit)"
      by (simp add: bind_err_def)
    then show ?thesis using True Cons.prems by auto
  next
    case False
    have nn: "0 \<le> round_double (x / 1024)" using Cons.prems by (intro round_double_nonneg) simp
    have "format_bytes_loop (unit # units) (PyFloat x)
            = format_bytes_loop units (PyFloat (round_double (x / 1024)))"
      using False by (simp add: bind_err_def)
    then show ?thesis using Cons.IH[OF nn] by auto
  qed
qed

lemma bind_err_Inr: "bind_err (Inr v) f = f v"
  by (simp add: bind_err_def)

lemma bind_err_Inl: "bind_err (Inl e) f = Inl e"
  by (simp add: bind_err_def)

lemma int_to_float_fits:
  assumes "\<bar>b\<bar> < 2 ^ 1024 - 2 ^ 970"
  shows "int_to_float b = Inr (round_double (of_int b))"
proof -
  have "(of_int \<bar>b\<bar> :: rat) < of_int (2 ^ 1024 - 2 ^ 970)" using assms by (simp only: of_int_less_iff)
  then have lt: "\<bar>of_int b :: rat\<bar> < 2 ^ 1024 - 2 ^ 970" by simp
  have "(of_int b :: rat) = 0 \<or> 1 \<le> \<bar>of_int b :: rat\<bar>"
  proof (cases "b = 0")
    case True
    then show ?thesis by simp
  next
    case False
    then have "1 \<le> \<bar>b\<bar>" by simp
    then have "(of_int 1 :: rat) \<le> of_int \<bar>b\<bar>" by (simp only: of_int_le_iff)
    then show ?thesis by simp
  qed
  from checked_double_fits[OF this lt] show ?thesis unfolding int_to_float_def .
qed

lemma int_to_float_overflows:
  assumes "2 ^ 1024 - 2 ^ 970 \<le> \<bar>b\<bar>"
  shows "int_to_float b = Inl OverflowError"
proof -
  have "(of_int (2 ^ 1024 - 2 ^ 970) :: rat) \<le> of_int \<bar>b\<bar>" using assms by (simp only: of_int_le_iff)
  then have "2 ^ 1024 - 2 ^ 970 \<le> \<bar>of_int b :: rat\<bar>" by simp
  from checked_double_overflows[OF this] show ?thesis unfolding int_to_float_def .
qed

lemma int_div_1024_fits:
  assumes lo: "1024 \<le> b" and hi: "b < 2 ^ 1034 - 2 ^ 980"
  shows "div_1024 (PyInt b) = Inr (PyFloat (round_double (of_int b / 1024)))"
    and "0 \<le> round_double (of_int b / 1024)"
proof -
  have "(of_int 1024 :: rat) \<le> of_int b" using lo by (simp only: of_int_le_iff)
  then have ge1: "1 \<le> (of_int b :: rat) / 1024" by simp
  have "(of_int b :: rat) < of_int (2 ^ 1034 - 2 ^ 980)" using hi by (simp only: of_int_less_iff)
  then have "(of_int b :: rat) / 1024 < of_int (2 ^ 1034 - 2 ^ 980) / 1024"
    by (simp only: divide_strict_right_mono zero_less_numeral)
  also have "(of_int (2 ^ 1034 - 2 ^ 980) :: rat) / 1024 = 2 ^ 1024 - 2 ^ 970" by simp
  finally have lt: "\<bar>(of_int b :: rat) / 1024\<bar> < 2 ^ 1024 - 2 ^ 970" using ge1 by simp
  have "(of_int b :: rat) / 1024 = 0 \<or> 1 \<le> \<bar>(of_int b :: rat) / 1024\<bar>" using ge1 by simp
  from checked_double_fits[OF this lt]
  show "div_1024 (PyInt b) = Inr (PyFloat (round_double (of_int b / 1024)))"
    by (simp add: bind_err_def)
  show "0 \<le> round_double (of_int b / 1024)" using ge1 by (intro round_double_nonneg) simp
qed

lemma int_div_1024_overflows:
  assumes "2 ^ 1034 - 2 ^ 980 \<le> b"
  shows "div_1024 (PyInt b) = Inl OverflowError"
proof -
  have "(of_int (2 ^ 1034 - 2 ^ 980) :: rat) \<le> of_int b" using assms by (simp only: of_int_le_iff)
  then have "(of_int (2 ^ 1034 - 2 ^ 980) :: rat) / 1024 \<le> of_int b / 1024"
    by (simp only: divide_right_mono zero_le_numeral)
  moreover have "(of_int (2 ^ 1034 - 2 ^ 980) :: rat) / 1024 = 2 ^ 1024 - 2 ^ 970" by simp
  ultimately have "2 ^ 1024 - 2 ^ 970 \<le> \<bar>(of_int b :: rat) / 1024\<bar>" by simp
  from checked_double_overflows[OF this] show ?thesis by (simp add: bind_err_def)
qed

lemma format_bytes_int_small:
  "b < 1024 \<Longrightarrow>
   format_bytes (PyInt b) = bind_err (int_to_float b) (\<lambda>x. Inr (float_2f x @ '' B''))"
  by (simp add: format_bytes_def bind_err_def split: sum.splits)

lemma format_bytes_int_large:
  "1024 \<le> b \<Longrightarrow>
   format_bytes (PyInt b) =
     bind_err (div_1024 (PyInt b)) (format_bytes_loop [''KB'', ''MB'', ''GB'', ''TB''])"
  by (simp add: format_bytes_def)

lemma format_bytes_int_returns:
  assumes "\<bar>b\<bar> < 2 ^ 1024 - 2 ^ 970"
  shows "\<exists>s. format_bytes (PyInt b) = Inr s"
proof (cases "b < 1024")
  case True
  then show ?thesis
    by (simp add: format_bytes_int_small int_to_float_fits[OF assms] bind_err_def)
next
  case False
  then have lo: "1024 \<le> b" by simp
  have "(2::int) ^ 1024 - 2 ^ 970 \<le> 2 ^ 1034 - 2 ^ 980" by simp
  then have hi: "b < 2 ^ 1034 - 2 ^ 980" using assms by linarith
  from format_bytes_loop_float[OF int_div_1024_fits(2)[OF lo hi]]
  obtain s where "format_bytes_loop [''KB'', ''MB'', ''GB'', ''TB''] (PyFloat (round_double (of_int b / 1024))) = Inr s"
    by blast
  then show ?thesis
    by (simp only: format_bytes_int_large[OF lo] int_div_1024_fits(1)[OF lo hi] bind_err_Inr) blast
qed

lemma int_to_float_exact:
  assumes "0 \<le> b" and "b < 2 ^ 53"
  shows "int_to_float b = Inr (of_int b)"
proof (cases "b = 0")
  case True
  then show ?thesis by (simp add: int_to_float_def checked_double_def round_double_def)
next
  case False
  then have "2 ^ 0 \<le> b" using assms by simp
  from checked_double_dyadic_exact[OF this assms(2)] show ?thesis
    by (simp add: int_to_float_def)
qed

lemma int_div_1024_exact:
  assumes "1024 \<le> b" and "b < 2 ^ 53"
  shows "div_1024 (PyInt b) = Inr (PyFloat (of_int b / 1024))"
proof -
  have "2 ^ 10 \<le> b" using assms(1) by simp
  from checked_double_dyadic_exact[OF this assms(2)]
  have "checked_double (of_int b / 1024) = Inr (of_int b / 1024)" by simp
  then show ?thesis by (simp add: bind_err_Inr)
qed

lemmas eval_simps = format_bytes_def int_to_float_exact int_div_1024_exact
  round_double_numeral_exact round_double_one_exact bind_err_Inr bind_err_Inl

lemma hundredths_1048575: "hundredths (1048575 / 1024) = 102400"
proof -
  have "round_half_even (\<bar>1048575 / 1024\<bar> * 100) = 102400"
    by (rule rhe_unique) simp_all
  then show ?thesis by (simp add: hundredths_def)
qed

lemmas float_2f_eval = float_2f_def hundredths_def round_half_even_def Let_def fixed2_def
  dec_nat.simps

lemma float_2f_values:
  "float_2f 0 = ''0.00''"
  "float_2f 1 = ''1.00''"
  "float_2f (3 / 2) = ''1.50''"
  "float_2f 1024 = ''1024.00''"
  by (simp_all add: float_2f_eval)

lemma float_2f_1048575: "float_2f (1048575 / 1024) = ''1024.00''"
  by (simp add: float_2f_def hundredths_1048575 fixed2_def dec_nat.simps)

lemma div_1024_pow6: "div_1024 (PyInt (1024 ^ 6)) = Inr (PyFloat (2 ^ 50))"
proof -
  have "(2::int) ^ 0 \<le> 2 ^ 50" and "(2::int) ^ 50 < 2 ^ 53" by simp_all
  from checked_double_dyadic_exact[OF this]
  have "checked_double (of_int (1024 ^ 6) / 1024) = Inr (2 ^ 50)" by simp
  then show ?thesis by (simp add: bind_err_Inr)
qed

lemma float_2f_nonneg: "0 \<le> y \<Longrightarrow> float_2f y = fixed2 (hundredths y)"
  by (simp add: float_2f_def)

lemma format_bytes_loop_PB:
  assumes "1024 ^ length units \<le> x"
  shows "\<exists>y. format_bytes_loop units (PyFloat x) = Inr (float_2f y @ '' PB'') \<and> 1 \<le> y"
  using assms
proof (induction units arbitrary: x)
  case Nil
  then show ?case by (auto simp: bind_err_def)
next
  case (Cons unit units)
  have p: "(1::rat) \<le> 1024 ^ length units" by simp
  have x: "1024 * 1024 ^ length units \<le> x" using Cons.prems by simp
  with p have "\<not> x < 1024" by linarith
  then have step: "format_bytes_loop (unit # units) (PyFloat x)
            = format_bytes_loop units (PyFloat (round_double (x / 1024)))"
    by (simp add: bind_err_def)
  have "(1024::rat) ^ length units = 2 ^ (10 * length units)"
    by (simp add: power_mult)
  moreover have "1024 ^ length units \<le> x / 1024" using x by simp
  ultimately have "2 ^ (10 * length units) \<le> x / 1024" by simp
  then have "2 ^ (10 * length units) \<le> round_double (x / 1024)"
    by (rule round_double_ge_pow2)
  then have "1024 ^ length units \<le> round_double (x / 1024)"
    by (simp add: power_mult)
  from Cons.IH[OF this] show ?case unfolding step .
qed

text \<open>
  From \<open>1024^5\<close> bytes on (and below the overflow bound) the unit is PB: there is no
  larger unit.
\<close>

lemma format_bytes_stays_in_PB:
  assumes lo: "1024 ^ 5 \<le> b" and hi: "b < 2 ^ 1034 - 2 ^ 980"
  shows "\<exists>y. format_bytes (PyInt b) = Inr (float_2f y @ '' PB'') \<and> 1 \<le> y"
proof -
  have b1024: "1024 \<le> b" using lo by simp
  have "(of_int (1024 ^ 5) :: rat) \<le> of_int b" using lo by (simp only: of_int_le_iff)
  then have "(2::rat) ^ 40 \<le> of_int b / 1024" by simp
  then have "(2::rat) ^ 40 \<le> round_double (of_int b / 1024)" by (rule round_double_ge_pow2)
  then have "1024 ^ length [''KB'', ''MB'', ''GB'', ''TB''] \<le> round_double (of_int b / 1024)"
    by simp
  from format_bytes_loop_PB[OF this]
  show ?thesis
    by (simp only: format_bytes_int_large[OF b1024] int_div_1024_fits(1)[OF b1024 hi] bind_err_Inr)
qed

subsection \<open>The claims about \<open>format_bytes\<close>\<close>

text \<open>
  C1 (as amended). For every integer byte count \<open>b \<ge> 0\<close> below \<open>2^1034 - 2^980\<close>,
  \<open>format_bytes\<close> returns a string made of a number with two decimals, a space and one
  of the units B, KB, MB, GB, TB, PB. The number is the rounding to two decimals of a
  scaled value \<open>y \<ge> 0\<close>; unless the unit is PB, \<open>y < 1024\<close>, so the number shown is at
  most 1024.00 (it can be 1024.00 itself). From \<open>2^1034 - 2^980\<close> on, the first division
  raises \<open>OverflowError\<close>.
\<close>

theorem format_bytes_nonneg:
  assumes "0 \<le> b"
  shows "if b < 2 ^ 1034 - 2 ^ 980
         then \<exists>y u. format_bytes (PyInt b) = Inr (fixed2 (hundredths y) @ '' '' @ u)
                \<and> 0 \<le> y
                \<and> u \<in> set [''B'', ''KB'', ''MB'', ''GB'', ''TB'', ''PB'']
                \<and> (u = ''PB'' \<or> y < 1024 \<and> hundredths y \<le> 102400)
         else format_bytes (PyInt b) = Inl OverflowError"
proof (cases "b < 1024")
  case True
  have small: "b < 2 ^ 1034 - 2 ^ 980" using True by simp
  have "b < 2 ^ 53" using True by simp
  then have f: "int_to_float b = Inr (of_int b)" using assms by (intro int_to_float_exact)
  define y :: rat where "y = of_int b"
  have y0: "0 \<le> y" and y1: "y < 1024" unfolding y_def using assms True by simp_all
  have "format_bytes (PyInt b) = Inr (float_2f y @ '' B'')"
    unfolding y_def by (simp only: format_bytes_int_small[OF True] f bind_err_Inr)
  then have 1: "format_bytes (PyInt b) = Inr (fixed2 (hundredths y) @ '' '' @ ''B'')"
    by (simp add: float_2f_nonneg[OF y0])
  have 2: "''B'' \<in> set [''B'', ''KB'', ''MB'', ''GB'', ''TB'', ''PB'']" by simp
  have 3: "hundredths y \<le> 102400" using y0 y1 by (rule hundredths_below_1024)
  have "\<exists>y u. format_bytes (PyInt b) = Inr (fixed2 (hundredths y) @ '' '' @ u)
                \<and> 0 \<le> y
                \<and> u \<in> set [''B'', ''KB'', ''MB'', ''GB'', ''TB'', ''PB'']
                \<and> (u = ''PB'' \<or> y < 1024 \<and> hundredths y \<le> 102400)"
    using 1 2 3 y0 y1 by blast
  then show ?thesis using small by (simp only: if_True)
next
  case False
  then have lo: "1024 \<le> b" by simp
  show ?thesis
  proof (cases "b < 2 ^ 1034 - 2 ^ 980")
    case True
    define r where "r = round_double (of_int b / 1024)"
    have d: "div_1024 (PyInt b) = Inr (PyFloat r)" and r0: "0 \<le> r"
      unfolding r_def using int_div_1024_fits[OF lo True] by simp_all
    have fb: "format_bytes (PyInt b) = format_bytes_loop [''KB'', ''MB'', ''GB'', ''TB''] (PyFloat r)"
      by (simp only: format_bytes_int_large[OF lo] d bind_err_Inr)
    from format_bytes_loop_float[OF r0, of "[''KB'', ''MB'', ''GB'', ''TB'']"]
    obtain y u where yu: "format_bytes_loop [''KB'', ''MB'', ''GB'', ''TB''] (PyFloat r) = Inr (float_2f y @ '' '' @ u)"
      and y0: "0 \<le> y" and u: "u \<in> set [''KB'', ''MB'', ''GB'', ''TB''] \<and> y < 1024 \<or> u = ''PB''"
      by blast
    have 1: "format_bytes (PyInt b) = Inr (fixed2 (hundredths y) @ '' '' @ u)"
      unfolding fb yu by (simp only: float_2f_nonneg[OF y0])
    have 2: "u \<in> set [''B'', ''KB'', ''MB'', ''GB'', ''TB'', ''PB'']" using u by auto
    have 3: "u = ''PB'' \<or> y < 1024 \<and> hundredths y \<le> 102400"
      using u y0 hundredths_below_1024[of y] by blast
    have "\<exists>y u. format_bytes (PyInt b) = Inr (fixed2 (hundredths y) @ '' '' @ u)
                \<and> 0 \<le> y
                \<and> u \<in> set [''B'', ''KB'', ''MB'', ''GB'', ''TB'', ''PB'']
                \<and> (u = ''PB'' \<or> y < 1024 \<and> hundredths y \<le> 102400)"
      using 1 2 3 y0 by blast
    then show ?thesis using True by (simp only: if_True)
  next
    case False
    then have "2 ^ 1034 - 2 ^ 980 \<le> b" by simp
    then have "div_1024 (PyInt b) = Inl OverflowError" by (rule int_div_1024_overflows)
    then have "format_bytes (PyInt b) = Inl OverflowError"
      by (simp only: format_bytes_int_large[OF lo] bind_err_Inl)
    then show ?thesis using False by (simp only: if_False)
  qed
qed

theorem format_bytes_nonneg_witness:
  "(0::int) \<le> 1536 \<and> (1536::int) < 2 ^ 1034 - 2 ^ 980
   \<and> (\<exists>y u. format_bytes (PyInt 1536) = Inr (fixed2 (hundredths y) @ '' '' @ u)
                \<and> 0 \<le> y
                \<and> u \<in> set [''B'', ''KB'', ''MB'', ''GB'', ''TB'', ''PB'']
                \<and> (u = ''PB'' \<or> y < 1024 \<and> hundredths y \<le> 102400))"
proof -
  have a: "(0::int) \<le> 1536" by simp
  have b: "(1536::int) < 2 ^ 1034 - 2 ^ 980" by simp
  from format_bytes_nonneg[OF a] b
  have "\<exists>y u. format_bytes (PyInt 1536) = Inr (fixed2 (hundredths y) @ '' '' @ u)
                \<and> 0 \<le> y
                \<and> u \<in> set [''B'', ''KB'', ''MB'', ''GB'', ''TB'', ''PB'']
                \<and> (u = ''PB'' \<or> y < 1024 \<and> hundredths y \<le> 102400)"
    by (simp only: if_True)
  with a b show ?thesis by (intro conjI)
qed

text \<open>
  C1 as stated fails at 1048575 bytes, where the number shown is 1024.00 with the unit
  KB, and at \<open>2^1034\<close> bytes, where no string is returned.
\<close>

theorem format_bytes_1024_00_KB:
  "format_bytes (PyInt 1048575) = Inr ''1024.00 KB''
   \<and> format_bytes (PyInt (2 ^ 1034)) = Inl OverflowError"
proof -
  have "format_bytes (PyInt 1048575) = Inr (float_2f (1048575 / 1024) @ '' KB'')"
    by (simp add: eval_simps del: div_1024.simps(1))
  then have 1: "format_bytes (PyInt 1048575) = Inr ''1024.00 KB''"
    by (simp add: float_2f_1048575)
  have lo: "(1024::int) \<le> 2 ^ 1034" by simp
  have "(2::int) ^ 1034 - 2 ^ 980 \<le> 2 ^ 1034" by simp
  then have "div_1024 (PyInt (2 ^ 1034)) = Inl OverflowError" by (rule int_div_1024_overflows)
  then have 2: "format_bytes (PyInt (2 ^ 1034)) = Inl OverflowError"
    by (simp only: format_bytes_int_large[OF lo] bind_err_Inl)
  from 1 2 show ?thesis by (rule conjI)
qed

text \<open>
  C2. The six fixed points of the specification, the last one showing that values from
  \<open>1024^5\<close> on stay in PB.
\<close>

theorem format_bytes_fixed_points:
  "format_bytes (PyInt 0) = Inr ''0.00 B''
   \<and> format_bytes (PyInt 1024) = Inr ''1.00 KB''
   \<and> format_bytes (PyInt 1536) = Inr ''1.50 KB''
   \<and> format_bytes (PyInt (1024 ^ 4)) = Inr ''1.00 TB''
   \<and> format_bytes (PyInt (1024 ^ 5)) = Inr ''1.00 PB''
   \<and> format_bytes (PyInt (1024 ^ 6)) = Inr ''1024.00 PB''"
proof -
  have 1: "format_bytes (PyInt 0) = Inr ''0.00 B''"
    by (simp add: eval_simps float_2f_values del: div_1024.simps(1))
  have 2: "format_bytes (PyInt 1024) = Inr ''1.00 KB''"
    by (simp add: eval_simps float_2f_values del: div_1024.simps(1))
  have 3: "format_bytes (PyInt 1536) = Inr ''1.50 KB''"
    by (simp add: eval_simps float_2f_values del: div_1024.simps(1))
  have 4: "format_bytes (PyInt (1024 ^ 4)) = Inr ''1.00 TB''"
    by (simp add: eval_simps float_2f_values del: div_1024.simps(1))
  have 5: "format_bytes (PyInt (1024 ^ 5)) = Inr ''1.00 PB''"
    by (simp add: eval_simps float_2f_values del: div_1024.simps(1))
  have 6: "format_bytes (PyInt (1024 ^ 6)) = Inr ''1024.00 PB''"
    using div_1024_pow6 by (simp add: eval_simps float_2f_values del: div_1024.simps(1))
  from 1 2 3 4 5 6 show ?thesis by (intro conjI)
qed

text \<open>
  C10 (as amended). \<open>format_bytes\<close> checks no precondition. For an int \<open>b < 1024\<close>,
  negative ones included, it returns \<open>f"{b:.2f} B"\<close> in the first iteration when
  \<open>b > -(2^1024 - 2^970)\<close>, and raises \<open>OverflowError\<close> (from the conversion of \<open>b\<close> to a
  float) otherwise; for a float \<open>x < 1024\<close> it always returns \<open>f"{x:.2f} B"\<close>.
\<close>

theorem format_bytes_below_1024:
  "(b < 1024 \<longrightarrow>
      format_bytes (PyInt b) =
        (if - (2 ^ 1024 - 2 ^ 970) < b then Inr (float_2f (round_double (of_int b)) @ '' B'')
         else Inl OverflowError))
   \<and> (x < 1024 \<longrightarrow> format_bytes (PyFloat x) = Inr (float_2f x @ '' B''))"
proof (intro conjI impI)
  assume b: "b < 1024"
  show "format_bytes (PyInt b) =
        (if - (2 ^ 1024 - 2 ^ 970) < b then Inr (float_2f (round_double (of_int b)) @ '' B'')
         else Inl OverflowError)"
  proof (cases "- (2 ^ 1024 - 2 ^ 970) < b")
    case True
    then have "\<bar>b\<bar> < 2 ^ 1024 - 2 ^ 970" using b by simp
    then have "int_to_float b = Inr (round_double (of_int b))" by (rule int_to_float_fits)
    then have "format_bytes (PyInt b) = Inr (float_2f (round_double (of_int b)) @ '' B'')"
      by (simp only: format_bytes_int_small[OF b] bind_err_Inr)
    then show ?thesis using True by (simp only: if_True)
  next
    case False
    then have "2 ^ 1024 - 2 ^ 970 \<le> \<bar>b\<bar>" by simp
    then have "int_to_float b = Inl OverflowError" by (rule int_to_float_overflows)
    then have "format_bytes (PyInt b) = Inl OverflowError"
      by (simp only: format_bytes_int_small[OF b] bind_err_Inl)
    then show ?thesis using False by (simp only: if_False)
  qed
next
  assume "x < 1024"
  then show "format_bytes (PyFloat x) = Inr (float_2f x @ '' B'')"
    by (simp add: format_bytes_def bind_err_def)
qed

theorem format_bytes_below_1024_witness:
  "(- 5 :: int) < 1024 \<and> - (2 ^ 1024 - 2 ^ 970) < (- 5 :: int) \<and> (1 / 8 :: rat) < 1024
   \<and> format_bytes (PyInt (- 5)) = Inr (float_2f (round_double (of_int (- 5))) @ '' B'')
   \<and> format_bytes (PyFloat (1 / 8)) = Inr (float_2f (1 / 8) @ '' B'')"
proof -
  have a: "(- 5 :: int) < 1024" by simp
  have b: "- (2 ^ 1024 - 2 ^ 970) < (- 5 :: int)" by simp
  have c: "(1 / 8 :: rat) < 1024" by simp
  from format_bytes_below_1024[of "- 5" "1 / 8"] a c
  have "format_bytes (PyInt (- 5)) =
        (if - (2 ^ 1024 - 2 ^ 970) < (- 5 :: int) then Inr (float_2f (round_double (of_int (- 5))) @ '' B'')
         else Inl OverflowError)"
    and d: "format_bytes (PyFloat (1 / 8)) = Inr (float_2f (1 / 8) @ '' B'')"
    by blast+
  with b have "format_bytes (PyInt (- 5)) = Inr (float_2f (round_double (of_int (- 5))) @ '' B'')"
    by (simp only: if_True)
  with a b c d show ?thesis by (intro conjI)
qed

text \<open>C10 as stated fails at \<open>-2^1024\<close>, which is below 1024 and raises.\<close>

theorem format_bytes_negative_overflow:
  "format_bytes (PyInt (- (2 ^ 1024))) = Inl OverflowError"
proof -
  have b: "- (2 ^ 1024) < (1024 :: int)" by simp
  have "(2::int) ^ 1024 - 2 ^ 970 \<le> \<bar>- (2 ^ 1024)\<bar>" by simp
  then have "int_to_float (- (2 ^ 1024)) = Inl OverflowError" by (rule int_to_float_overflows)
  then show ?thesis by (simp only: format_bytes_int_small[OF b] bind_err_Inl)
qed

section \<open>Properties of \<open>get_network_info\<close>\<close>

text \<open>
  When the socket calls raise nothing but socket errors, \<open>get_network_info\<close> returns a
  record.
\<close>

lemma get_network_info_returns:
  assumes "\<forall>e. socket_gethostname h = Inl e \<longrightarrow> is_OSError e"
    and "\<forall>name e. socket_gethostbyname h name = Inl e \<longrightarrow> is_OSError e"
    and "\<forall>e. socket_getfqdn h = Inl e \<longrightarrow> is_OSError e"
  shows "\<exists>r c. get_network_info h cache = (Inr r, c)"
proof (cases cache)
  case (Some r)
  then show ?thesis by (simp add: get_network_info_def)
next
  case None
  have "\<exists>r. get_network_info_body h = Inr r"
    using assms
    by (auto simp: get_network_info_body_def try_except_def bind_err_def split: sum.splits)
  then show ?thesis using None by (auto simp: get_network_info_def)
qed

text \<open>
  C3. When one of the socket calls of the name resolution (\<open>gethostname\<close>,
  \<open>gethostbyname\<close>, \<open>getfqdn\<close>) raises a socket error, that is an \<open>OSError\<close> or one
  of its subclasses, \<open>get_network_info\<close> raises nothing and returns the record whose
  hostname, IP address and FQDN are all \<open>None\<close>.
\<close>

theorem get_network_info_failure:
  assumes "is_OSError e"
    and "socket_gethostname h = Inl e
         \<or> (\<exists>name. socket_gethostname h = Inr name
               \<and> (socket_gethostbyname h name = Inl e
                    \<or> (\<exists>ip. socket_gethostbyname h name = Inr ip \<and> socket_getfqdn h = Inl e)))"
  shows "get_network_info h None =
           (Inr \<lparr>hostname = None, ip_address = None, fqdn = None\<rparr>,
            Some \<lparr>hostname = None, ip_address = None, fqdn = None\<rparr>)"
proof -
  have "get_network_info_body h = Inr \<lparr>hostname = None, ip_address = None, fqdn = None\<rparr>"
    using assms by (auto simp: get_network_info_body_def try_except_def bind_err_def)
  then show ?thesis by (simp add: get_network_info_def)
qed

theorem get_network_info_failure_witness:
  "is_OSError SocketGaiError
   \<and> socket_gethostname example_host_no_dns = Inr ''box''
   \<and> socket_gethostbyname example_host_no_dns ''box'' = Inl SocketGaiError
   \<and> get_network_info example_host_no_dns None =
           (Inr \<lparr>hostname = None, ip_address = None, fqdn = None\<rparr>,
            Some \<lparr>hostname = None, ip_address = None, fqdn = None\<rparr>)"
proof -
  have a: "is_OSError SocketGaiError" by (simp add: is_OSError_def)
  have b: "socket_gethostname example_host_no_dns = Inr ''box''"
    by (simp add: example_host_no_dns_def example_posix_host_def)
  have c: "socket_gethostbyname example_host_no_dns ''box'' = Inl SocketGaiError"
    by (simp add: example_host_no_dns_def)
  from b c have d: "socket_gethostname example_host_no_dns = Inl SocketGaiError
         \<or> (\<exists>name. socket_gethostname example_host_no_dns = Inr name
               \<and> (socket_gethostbyname example_host_no_dns name = Inl SocketGaiError
                    \<or> (\<exists>ip. socket_gethostbyname example_host_no_dns name = Inr ip
                          \<and> socket_getfqdn example_host_no_dns = Inl SocketGaiError)))"
    by blast
  from a b c get_network_info_failure[OF a d] show ?thesis by (intro conjI)
qed

text \<open>
  C4. Once a call of \<open>get_network_info\<close> has returned a record, every later call in the
  same process returns that record, whatever the name service answers by then: the
  sockets are not asked again.
\<close>

theorem get_network_info_memoized:
  assumes "get_network_info h cache = (Inr r, cache')"
  shows "get_network_info h' cache' = (Inr r, cache')"
proof (cases cache)
  case None
  with assms have "cache' = Some r"
    by (auto simp: get_network_info_def split: sum.splits)
  then show ?thesis by (simp add: get_network_info_def)
next
  case (Some r0)
  with assms have "cache' = Some r"
    by (auto simp: get_network_info_def)
  then show ?thesis by (simp add: get_network_info_def)
qed

theorem get_network_info_memoized_witness:
  "get_network_info example_posix_host None =
     (Inr \<lparr>hostname = Some ''box'', ip_address = Some ''127.0.1.1'', fqdn = Some ''box.example.org''\<rparr>,
      Some \<lparr>hostname = Some ''box'', ip_address = Some ''127.0.1.1'', fqdn = Some ''box.example.org''\<rparr>)
   \<and> get_network_info example_host_no_dns
        (Some \<lparr>hostname = Some ''box'', ip_address = Some ''127.0.1.1'', fqdn = Some ''box.example.org''\<rparr>) =
     (Inr \<lparr>hostname = Some ''box'', ip_address = Some ''127.0.1.1'', fqdn = Some ''box.example.org''\<rparr>,
      Some \<lparr>hostname = Some ''box'', ip_address = Some ''127.0.1.1'', fqdn = Some ''box.example.org''\<rparr>)"
proof -
  have a: "get_network_info example_posix_host None =
     (Inr \<lparr>hostname = Some ''box'', ip_address = Some ''127.0.1.1'', fqdn = Some ''box.example.org''\<rparr>,
      Some \<lparr>hostname = Some ''box'', ip_address = Some ''127.0.1.1'', fqdn = Some ''box.example.org''\<rparr>)"
    by (simp add: get_network_info_def get_network_info_body_def try_except_def bind_err_def
        example_posix_host_def)
  from a get_network_info_memoized[OF a, of example_host_no_dns] show ?thesis by (intro conjI)
qed

lemma or_default_None: "or_default None d = d"
  by (simp add: or_default_def)

text \<open>
  C9. When the resolution succeeds and \<open>getfqdn\<close> returns the hostname itself, the record
  has the hostname and the IP address and its FQDN is \<open>None\<close>; the network panel then
  shows the FQDN as "Could not be determined".
\<close>

theorem get_network_info_fqdn_is_hostname:
  assumes "socket_gethostname h = Inr name"
    and "socket_gethostbyname h name = Inr ip"
    and "socket_getfqdn h = Inr name"
  shows "get_network_info h None =
           (Inr \<lparr>hostname = Some name, ip_address = Some ip, fqdn = None\<rparr>,
            Some \<lparr>hostname = Some name, ip_address = Some ip, fqdn = None\<rparr>)
         \<and> (\<exists>lines. network_panel \<lparr>hostname = Some name, ip_address = Some ip, fqdn = None\<rparr> =
               Panel (lines @ ''[cyan]FQDN:[/cyan] '' @ could_not_be_determined)
                 (emoji_globe @ '' Network Information'') ''blue'')"
proof -
  have "get_network_info_body h = Inr \<lparr>hostname = Some name, ip_address = Some ip, fqdn = None\<rparr>"
    using assms by (simp add: get_network_info_body_def try_except_def bind_err_def)
  then have 1: "get_network_info h None =
           (Inr \<lparr>hostname = Some name, ip_address = Some ip, fqdn = None\<rparr>,
            Some \<lparr>hostname = Some name, ip_address = Some ip, fqdn = None\<rparr>)"
    by (simp add: get_network_info_def)
  define lines where "lines = ''[cyan]Hostname:[/cyan] '' @ or_default (Some name) could_not_be_determined
                  @ [CHR 0x0A] @ ''[cyan]IP Address:[/cyan] ''
                  @ or_default (Some ip) could_not_be_determined @ [CHR 0x0A]"
  have "network_panel \<lparr>hostname = Some name, ip_address = Some ip, fqdn = None\<rparr> =
          Panel (lines @ ''[cyan]FQDN:[/cyan] '' @ could_not_be_determined)
            (emoji_globe @ '' Network Information'') ''blue''"
    unfolding network_panel_def lines_def
    by (simp only: netinfo.select_convs or_default_None append_assoc)
  then have 2: "\<exists>lines. network_panel \<lparr>hostname = Some name, ip_address = Some ip, fqdn = None\<rparr> =
               Panel (lines @ ''[cyan]FQDN:[/cyan] '' @ could_not_be_determined)
                 (emoji_globe @ '' Network Information'') ''blue''"
    by (rule exI[of _ lines])
  from 1 2 show ?thesis by (rule conjI)
qed

theorem get_network_info_fqdn_is_hostname_witness:
  "socket_gethostname example_host_short_fqdn = Inr ''box''
   \<and> socket_gethostbyname example_host_short_fqdn ''box'' = Inr ''127.0.1.1''
   \<and> socket_getfqdn example_host_short_fqdn = Inr ''box''
   \<and> get_network_info example_host_short_fqdn None =
           (Inr \<lparr>hostname = Some ''box'', ip_address = Some ''127.0.1.1'', fqdn = None\<rparr>,
            Some \<lparr>hostname = Some ''box'', ip_address = Some ''127.0.1.1'', fqdn = None\<rparr>)"
proof -
  have a: "socket_gethostname example_host_short_fqdn = Inr ''box''"
    and b: "socket_gethostbyname example_host_short_fqdn ''box'' = Inr ''127.0.1.1''"
    and c: "socket_getfqdn example_host_short_fqdn = Inr ''box''"
    by (simp_all add: example_host_short_fqdn_def example_posix_host_def)
  from get_network_info_fqdn_is_hostname[OF a b c]
  have "get_network_info example_host_short_fqdn None =
           (Inr \<lparr>hostname = Some ''box'', ip_address = Some ''127.0.1.1'', fqdn = None\<rparr>,
            Some \<lparr>hostname = Some ''box'', ip_address = Some ''127.0.1.1'', fqdn = None\<rparr>)"
    by (rule conjunct1)
  with a b c show ?thesis by (intro conjI)
qed

section \<open>Properties of \<open>get_filesystem_info\<close>\<close>

lemma format_bytes_int_returns_129:
  assumes "\<bar>b\<bar> < 2 ^ 129"
  shows "\<exists>s. format_bytes (PyInt b) = Inr s"
proof -
  have "(2::int) ^ 129 \<le> 2 ^ 1024 - 2 ^ 970" by simp
  with assms have "\<bar>b\<bar> < 2 ^ 1024 - 2 ^ 970" by linarith
  then show ?thesis by (rule format_bytes_int_returns)
qed

lemma uint64_product_bounds:
  fixes a b :: "64 word"
  shows "0 \<le> uint a * uint b" and "uint a * uint b < 2 ^ 128"
proof -
  have a: "0 \<le> uint a" "uint a < 2 ^ 64" and b: "0 \<le> uint b" "uint b < 2 ^ 64"
    using uint_lt2p[of a] uint_lt2p[of b] by simp_all
  show "0 \<le> uint a * uint b" using a(1) b(1) by simp
  have "uint a * uint b < 2 ^ 64 * 2 ^ 64"
    using a b by (intro mult_strict_mono) simp_all
  also have "(2::int) ^ 64 * 2 ^ 64 = 2 ^ 128" by simp
  finally show "uint a * uint b < 2 ^ 128" .
qed

lemma format_bytes_uint64_product:
  fixes a b :: "64 word"
  shows "\<exists>s. format_bytes (PyInt (uint a * uint b)) = Inr s"
proof -
  have "(2::int) ^ 128 < 2 ^ 129" by simp
  then have "\<bar>uint a * uint b\<bar> < 2 ^ 129"
    using uint64_product_bounds[of a b] by linarith
  then show ?thesis by (rule format_bytes_int_returns_129)
qed

lemma format_bytes_uint64_product_diff:
  fixes a b c :: "64 word"
  shows "\<exists>s. format_bytes (PyInt (uint a * uint b - uint a * uint c)) = Inr s"
proof -
  have "(2::int) ^ 128 < 2 ^ 129" by simp
  then have "\<bar>uint a * uint b - uint a * uint c\<bar> < 2 ^ 129"
    using uint64_product_bounds[of a b] uint64_product_bounds[of a c] by linarith
  then show ?thesis by (rule format_bytes_int_returns_129)
qed

lemma format_bytes_uint64:
  fixes a :: "64 word"
  shows "\<exists>s. format_bytes (PyInt (uint a)) = Inr s"
proof -
  have "(2::int) ^ 64 < 2 ^ 129" by simp
  then have "\<bar>uint a\<bar> < 2 ^ 129" using uint_lt2p[of a] by simp
  then show ?thesis by (rule format_bytes_int_returns_129)
qed

lemma format_bytes_uint64_diff:
  fixes a b :: "64 word"
  shows "\<exists>s. format_bytes (PyInt (uint a - uint b)) = Inr s"
proof -
  have "(2::int) ^ 64 < 2 ^ 129" by simp
  moreover have "0 \<le> uint a" "uint a < 2 ^ 64" "0 \<le> uint b" "uint b < 2 ^ 64"
    using uint_lt2p[of a] uint_lt2p[of b] by simp_all
  ultimately have "\<bar>uint a - uint b\<bar> < 2 ^ 129" by linarith
  then show ?thesis by (rule format_bytes_int_returns_129)
qed

text \<open>
  C5. On a POSIX host where \<open>os.statvfs(".")\<close> succeeds, \<open>get_filesystem_info\<close> returns a
  record: its total is (the formatted form of) \<open>f_frsize * f_blocks\<close>, its available space
  that of \<open>f_frsize * f_bavail\<close>, its used space that of total minus available, and its
  type the raw \<open>f_flag\<close>.
\<close>

theorem get_filesystem_info_posix:
  assumes "os_name h = ''posix''" and "os_statvfs h ''.'' = Inr sv"
  shows "\<exists>t a u.
           format_bytes (PyInt (uint (f_frsize sv) * uint (f_blocks sv))) = Inr t
           \<and> format_bytes (PyInt (uint (f_frsize sv) * uint (f_bavail sv))) = Inr a
           \<and> format_bytes (PyInt (uint (f_frsize sv) * uint (f_blocks sv)
                                    - uint (f_frsize sv) * uint (f_bavail sv))) = Inr u
           \<and> get_filesystem_info h ctypes_bound =
               Inr (Some \<lparr>fs_total = t, fs_available = a, fs_used = u,
                          fs_type = Some (uint (f_flag sv))\<rparr>)"
proof -
  obtain t where t: "format_bytes (PyInt (uint (f_frsize sv) * uint (f_blocks sv))) = Inr t"
    using format_bytes_uint64_product by blast
  obtain a where a: "format_bytes (PyInt (uint (f_frsize sv) * uint (f_bavail sv))) = Inr a"
    using format_bytes_uint64_product by blast
  obtain u where u: "format_bytes (PyInt (uint (f_frsize sv) * uint (f_blocks sv)
                                    - uint (f_frsize sv) * uint (f_bavail sv))) = Inr u"
    using format_bytes_uint64_product_diff by blast
  have "get_filesystem_info h ctypes_bound =
               Inr (Some \<lparr>fs_total = t, fs_available = a, fs_used = u,
                          fs_type = Some (uint (f_flag sv))\<rparr>)"
    unfolding get_filesystem_info_def
    by (simp add: assms bind_err_Inr Let_def t a u try_except_def)
  with t a u show ?thesis by blast
qed

lemma float_2f_small_values:
  "float_2f 3 = ''3.00''"
  "float_2f 4 = ''4.00''"
  by (simp_all add: float_2f_eval)

lemma format_bytes_example_values:
  "format_bytes (PyInt 4294967296) = Inr ''4.00 GB''"
  "format_bytes (PyInt 1073741824) = Inr ''1.00 GB''"
  "format_bytes (PyInt 3221225472) = Inr ''3.00 GB''"
  "format_bytes (PyInt 0) = Inr ''0.00 B''"
  by (simp_all add: eval_simps float_2f_values float_2f_small_values del: div_1024.simps(1))

lemma example_posix_host_statvfs:
  "os_name example_posix_host = ''posix''"
  "os_statvfs example_posix_host ''.'' =
     Inr \<lparr>f_frsize = 4096, f_blocks = 1048576, f_bavail = 262144, f_flag = 4096\<rparr>"
  by (simp_all add: example_posix_host_def)

theorem get_filesystem_info_posix_witness:
  "os_name example_posix_host = ''posix''
   \<and> os_statvfs example_posix_host ''.'' =
       Inr \<lparr>f_frsize = 4096, f_blocks = 1048576, f_bavail = 262144, f_flag = 4096\<rparr>
   \<and> get_filesystem_info example_posix_host False =
       Inr (Some \<lparr>fs_total = ''4.00 GB'', fs_available = ''1.00 GB'', fs_used = ''3.00 GB'',
                  fs_type = Some 4096\<rparr>)"
proof -
  note h = example_posix_host_statvfs
  from get_filesystem_info_posix[OF h, of False]
  have "get_filesystem_info example_posix_host False =
       Inr (Some \<lparr>fs_total = ''4.00 GB'', fs_available = ''1.00 GB'', fs_used = ''3.00 GB'',
                  fs_type = Some 4096\<rparr>)"
    by (auto simp: format_bytes_example_values)
  with h show ?thesis by (intro conjI)
qed

text \<open>
  C7. On a Windows host (with \<open>ctypes\<close> imported) where the disk-free-space function is
  found, the current directory is read and the call with that directory and three zeroed
  cells returns, \<open>get_filesystem_info\<close> returns a record without a type: its total is
  (the formatted form of) the total cell, its available space that of the free cell, and
  its used space that of total minus free.
\<close>

theorem get_filesystem_info_nt:
  assumes "os_name h = ''nt''"
    and "GetDiskFreeSpaceExW h = Inr api"
    and "os_getcwd h = Inr cwd"
    and "api cwd (0, 0, 0) = Inr (ret, free_bytes, total_bytes, total_free_bytes)"
  shows "\<exists>t a u.
           format_bytes (PyInt (uint total_bytes)) = Inr t
           \<and> format_bytes (PyInt (uint free_bytes)) = Inr a
           \<and> format_bytes (PyInt (uint total_bytes - uint free_bytes)) = Inr u
           \<and> get_filesystem_info h True =
               Inr (Some \<lparr>fs_total = t, fs_available = a, fs_used = u, fs_type = None\<rparr>)"
proof -
  obtain t where t: "format_bytes (PyInt (uint total_bytes)) = Inr t"
    using format_bytes_uint64 by blast
  obtain a where a: "format_bytes (PyInt (uint free_bytes)) = Inr a"
    using format_bytes_uint64 by blast
  obtain u where u: "format_bytes (PyInt (uint total_bytes - uint free_bytes)) = Inr u"
    using format_bytes_uint64_diff by blast
  have "get_filesystem_info h True =
               Inr (Some \<lparr>fs_total = t, fs_available = a, fs_used = u, fs_type = None\<rparr>)"
    unfolding get_filesystem_info_def
    by (simp add: assms bind_err_Inr t a u try_except_def)
  with t a u show ?thesis by blast
qed

lemma example_nt_host_call:
  "os_name example_nt_host = ''nt''"
  "GetDiskFreeSpaceExW example_nt_host =
     Inr (\<lambda>cwd cells. Inr (1, 3221225472, 4294967296, 3221225472))"
  "os_getcwd example_nt_host = Inr ''C:/Users/user''"
  by (simp_all add: example_nt_host_def)

theorem get_filesystem_info_nt_witness:
  "os_name example_nt_host = ''nt''
   \<and> GetDiskFreeSpaceExW example_nt_host =
       Inr (\<lambda>cwd cells. Inr (1, 3221225472, 4294967296, 3221225472))
   \<and> os_getcwd example_nt_host = Inr ''C:/Users/user''
   \<and> get_filesystem_info example_nt_host True =
       Inr (Some \<lparr>fs_total = ''4.00 GB'', fs_available = ''3.00 GB'', fs_used = ''1.00 GB'',
                  fs_type = None\<rparr>)"
proof -
  note h = example_nt_host_call
  have c: "(\<lambda>cwd cells. Inr (1, 3221225472, 4294967296, 3221225472)) ''C:/Users/user'' (0, 0, 0)
           = (Inr (1, 3221225472, 4294967296, 3221225472)
              :: pyerror + int \<times> 64 word \<times> 64 word \<times> 64 word)"
    by simp
  from get_filesystem_info_nt[OF h c]
  have "get_filesystem_info example_nt_host True =
       Inr (Some \<lparr>fs_total = ''4.00 GB'', fs_available = ''3.00 GB'', fs_used = ''1.00 GB'',
                  fs_type = None\<rparr>)"
    by (auto simp: format_bytes_example_values)
  with h show ?thesis by (intro conjI)
qed

text \<open>
  The failures that \<open>get_filesystem_info\<close> turns into \<open>None\<close>: an \<open>OSError\<close> from
  \<open>os.statvfs\<close>, an \<open>AttributeError\<close> or \<open>OSError\<close> from the Windows path, and a host
  that is neither \<open>posix\<close> nor \<open>nt\<close>.
\<close>

lemma get_filesystem_info_posix_oserror:
  assumes "os_name h = ''posix''" and "os_statvfs h ''.'' = Inl e" and "is_OSError e"
  shows "get_filesystem_info h ctypes_bound = Inr None"
  using assms by (simp add: get_filesystem_info_def try_except_def bind_err_Inl)

lemma get_filesystem_info_nt_caught:
  assumes "os_name h = ''nt''" and "e = AttributeError \<or> is_OSError e"
    and "GetDiskFreeSpaceExW h = Inl e
         \<or> (\<exists>api. GetDiskFreeSpaceExW h = Inr api
               \<and> (os_getcwd h = Inl e
                    \<or> (\<exists>cwd. os_getcwd h = Inr cwd \<and> api cwd (0, 0, 0) = Inl e)))"
  shows "get_filesystem_info h True = Inr None"
  using assms by (auto simp: get_filesystem_info_def try_except_def bind_err_def)

lemma get_filesystem_info_other_os:
  assumes "os_name h \<noteq> ''posix''" and "os_name h \<noteq> ''nt''"
  shows "get_filesystem_info h ctypes_bound = Inr None"
  using assms by (simp add: get_filesystem_info_def)

text \<open>
  When the platform calls of the selected path raise nothing but the exceptions its
  \<open>except\<close> clause names, \<open>get_filesystem_info\<close> returns (a record or \<open>None\<close>).
\<close>

lemma get_filesystem_info_posix_returns:
  assumes "os_name h = ''posix''" and "\<forall>e. os_statvfs h ''.'' = Inl e \<longrightarrow> is_OSError e"
  shows "\<exists>fs. get_filesystem_info h ctypes_bound = Inr fs"
proof (cases "os_statvfs h ''.''")
  case (Inl e)
  with assms show ?thesis
    by (simp add: get_filesystem_info_def try_except_def bind_err_Inl)
next
  case (Inr sv)
  obtain t where t: "format_bytes (PyInt (uint (f_frsize sv) * uint (f_blocks sv))) = Inr t"
    using format_bytes_uint64_product by blast
  obtain a where a: "format_bytes (PyInt (uint (f_frsize sv) * uint (f_bavail sv))) = Inr a"
    using format_bytes_uint64_product by blast
  obtain u where u: "format_bytes (PyInt (uint (f_frsize sv) * uint (f_blocks sv)
                                    - uint (f_frsize sv) * uint (f_bavail sv))) = Inr u"
    using format_bytes_uint64_product_diff by blast
  show ?thesis
    unfolding get_filesystem_info_def
    by (simp add: assms(1) Inr bind_err_Inr Let_def t a u try_except_def)
qed

lemma get_filesystem_info_nt_returns:
  assumes "os_name h = ''nt''"
    and "\<forall>e. GetDiskFreeSpaceExW h = Inl e \<longrightarrow> e = AttributeError \<or> is_OSError e"
    and "\<forall>e. os_getcwd h = Inl e \<longrightarrow> e = AttributeError \<or> is_OSError e"
    and "\<forall>api cwd e. GetDiskFreeSpaceExW h = Inr api \<and> api cwd (0, 0, 0) = Inl e
           \<longrightarrow> e = AttributeError \<or> is_OSError e"
  shows "\<exists>fs. get_filesystem_info h True = Inr fs"
proof (cases "GetDiskFreeSpaceExW h")
  case (Inl e)
  with assms show ?thesis
    by (simp add: get_filesystem_info_def try_except_def bind_err_Inl)
next
  case api: (Inr api)
  show ?thesis
  proof (cases "os_getcwd h")
    case (Inl e)
    with assms api show ?thesis
      by (simp add: get_filesystem_info_def try_except_def bind_err_Inl bind_err_Inr)
  next
    case cwd: (Inr cwd)
    show ?thesis
    proof (cases "api cwd (0, 0, 0)")
      case (Inl e)
      with assms(4) api have "e = AttributeError \<or> is_OSError e" by blast
      with assms(1) api cwd Inl show ?thesis
        by (simp add: get_filesystem_info_def try_except_def bind_err_Inl bind_err_Inr)
    next
      case (Inr res)
      obtain ret free_bytes total_bytes total_free_bytes
        where res: "res = (ret, free_bytes, total_bytes, total_free_bytes)"
        by (cases res) auto
      obtain t where t: "format_bytes (PyInt (uint total_bytes)) = Inr t"
        using format_bytes_uint64 by blast
      obtain a where a: "format_bytes (PyInt (uint free_bytes)) = Inr a"
        using format_bytes_uint64 by blast
      obtain u where u: "format_bytes (PyInt (uint total_bytes - uint free_bytes)) = Inr u"
        using format_bytes_uint64_diff by blast
      show ?thesis
        unfolding get_filesystem_info_def
        by (simp add: assms(1) api cwd Inr res bind_err_Inr t a u try_except_def)
    qed
  qed
qed

text \<open>
  C6 fails on the Windows path. On \<open>example_nt_host_call_fails\<close> the disk-free-space
  call reports its failure by returning 0; the return value is not looked at, so the
  three cells, still 0, are formatted: the result is a record, not \<open>None\<close>, and \<open>main\<close>
  prints a filesystem table of zeros as its fifth section instead of the failure message.
\<close>

theorem get_filesystem_info_nt_call_fails:
  "get_filesystem_info example_nt_host_call_fails True =
     Inr (Some \<lparr>fs_total = ''0.00 B'', fs_available = ''0.00 B'', fs_used = ''0.00 B'',
                fs_type = None\<rparr>)
   \<and> fst (run_script example_nt_host_call_fails) = Inr ()
   \<and> console (snd (run_script example_nt_host_call_fails)) ! 4 =
       fs_table \<lparr>fs_total = ''0.00 B'', fs_available = ''0.00 B'', fs_used = ''0.00 B'',
                 fs_type = None\<rparr>
   \<and> console (snd (run_script example_nt_host_call_fails)) ! 4 \<noteq> fs_failure"
proof -
  have h: "os_name example_nt_host_call_fails = ''nt''"
    "GetDiskFreeSpaceExW example_nt_host_call_fails = Inr (\<lambda>cwd cells. Inr (0, cells))"
    "os_getcwd example_nt_host_call_fails = Inr ''C:/Users/user''"
    by (simp_all add: example_nt_host_call_fails_def example_nt_host_def)
  have fs: "get_filesystem_info example_nt_host_call_fails True =
     Inr (Some \<lparr>fs_total = ''0.00 B'', fs_available = ''0.00 B'', fs_used = ''0.00 B'',
                fs_type = None\<rparr>)"
    unfolding get_filesystem_info_def
    by (simp add: h bind_err_Inr try_except_def format_bytes_example_values)
  have net: "get_network_info example_nt_host_call_fails None =
     (Inr \<lparr>hostname = Some ''box'', ip_address = Some ''127.0.1.1'', fqdn = Some ''box.example.org''\<rparr>,
      Some \<lparr>hostname = Some ''box'', ip_address = Some ''127.0.1.1'', fqdn = Some ''box.example.org''\<rparr>)"
    by (simp add: get_network_info_def get_network_info_body_def try_except_def bind_err_def
        example_nt_host_call_fails_def example_nt_host_def example_posix_host_def)
  have run: "run_script example_nt_host_call_fails =
     (Inr (),
      \<lparr>console = [title_banner, os_tree example_nt_host_call_fails,
                  python_table example_nt_host_call_fails,
                  network_panel \<lparr>hostname = Some ''box'', ip_address = Some ''127.0.1.1'',
                                 fqdn = Some ''box.example.org''\<rparr>,
                  fs_table \<lparr>fs_total = ''0.00 B'', fs_available = ''0.00 B'', fs_used = ''0.00 B'',
                            fs_type = None\<rparr>,
                  time_panel example_nt_host_call_fails],
       net_cache = Some \<lparr>hostname = Some ''box'', ip_address = Some ''127.0.1.1'',
                          fqdn = Some ''box.example.org''\<rparr>\<rparr>)"
    by (simp add: run_script_def main_def fresh_process_def console_print_def h(1) net fs)
  have ne: "fs_table \<lparr>fs_total = ''0.00 B'', fs_available = ''0.00 B'', fs_used = ''0.00 B'',
                 fs_type = None\<rparr> \<noteq> fs_failure"
    by (simp add: fs_table_def fs_failure_def)
  show ?thesis unfolding run using fs ne by simp
qed

section \<open>Properties of \<open>main\<close>\<close>



text \<open>
  An exception that \<open>get_network_info\<close> does not catch ends \<open>main\<close> after the first three
  sections.
\<close>

lemma main_network_error:
  assumes "get_network_info h (net_cache p) = (Inl e, c)"
  shows "main h ctypes_bound p =
           (Inl e, p\<lparr>console := console p @ [title_banner, os_tree h, python_table h],
                     net_cache := c\<rparr>)"
  using assms by (simp add: main_def console_print_def)



end
